theory Spec2Isabelle
  imports Main
begin

section \<open>Data model\<close>

text \<open>
  The job tracker lives in the application shell \<^verbatim>\<open>AppContent\<close>
  (\<^verbatim>\<open>services/api/openaiService.ts\<close>, third document of the file). It works on the
  in-memory post collection, on the notification list and on HTTP requests to
  collaborators.
\<close>

text \<open>
  Modelled from the spec: the type of the job handle \<^verbatim>\<open>videoOperation\<close> is not among the
  sources. It is the video object of the status endpoint,
  \<^verbatim>\<open>{ id, status, progress?, error?: { message } }\<close>, with the fields that the tracker
  reads.
\<close>

text \<open>
  A number as a JSON body carries it and as the tracker uses it. The tracker tests the
  progress for truthiness and prints it in a template literal, nothing else. \<open>Zero\<close>
  stands for the two falsy numbers of a JSON body, 0 and -0, which both print as
  \<^verbatim>\<open>0\<close>; \<open>Nonzero s\<close> stands for any other number, \<open>s\<close> being the text that the
  runtime prints for it, whole or fractional, in plain or in exponent form.
\<close>

datatype number = Zero | Nonzero string

record video =
  video_id :: string
  video_status :: string
  progress :: "number option"
  error_message :: "string option"

text \<open>
  Modelled from the spec: the type \<^verbatim>\<open>Post\<close> of \<^verbatim>\<open>@/types\<close> is not among the sources. The
  fields are those of the spec's data model that the tracker reads or writes, under the
  names the code uses (\<^verbatim>\<open>id\<close> is \<open>post_id\<close> here); they are the ones that the posts route
  returns. A post is a record, so any further field travels along unchanged.
\<close>

record post =
  post_id :: string
  topic :: string
  status :: string
  scheduledAt :: "string option"
  isGeneratingVideo :: bool
  videoOperation :: "video option"
  generatedVideoUrl :: "string option"
  videoGenerationStatus :: string

text \<open>
  Modelled from the spec: the notification context is not among the sources. A
  notification holds the arguments of \<^verbatim>\<open>addNotification(type, title, message, postId?)\<close>,
  and the call appends it to the list of notifications.
\<close>

record notification =
  n_type :: string
  n_title :: string
  n_message :: string
  n_postId :: "string option"

text \<open>
  Modelled from the spec: one element of the list returned by
  \<^verbatim>\<open>publishingService.publishPost\<close>, \<^verbatim>\<open>{ platform, success, url?, error? }\<close>; the service
  is not among the sources.
\<close>

record platform_result =
  platform :: string
  success :: bool
  url :: "string option"
  error :: "string option"

text \<open>
  Calls that leave the component, in the order they are issued: the HTTP requests with
  the part of the body that the code puts in, and the calls to the media and publishing
  services.
\<close>

datatype call =
    VideoStatusRequest string
  | VideoFetchRequest string
  | AutoSaveMedia string string string
  | ValidateCall post
  | PublishCall post
  | LibraryRequest post "platform_result list" string
  | DeleteRequest string string

record world =
  posts :: "post list"
  notifications :: "notification list"
  calls :: "call list"

section \<open>Helpers of the host language\<close>

text \<open>A string is truthy in JavaScript when it is not empty.\<close>

definition truthy :: "string \<Rightarrow> bool" where
  "truthy s = (s \<noteq> [])"

text \<open>\<^verbatim>\<open>p.videoOperation?.id\<close> and \<^verbatim>\<open>p.videoOperation?.status\<close>: undefined without a handle.\<close>

definition operation_id :: "post \<Rightarrow> string option" where
  "operation_id p = map_option video_id (videoOperation p)"

definition operation_status :: "post \<Rightarrow> string option" where
  "operation_status p = map_option video_status (videoOperation p)"

text \<open>The decimal text that a template literal gives a count.\<close>

fun nat_to_string :: "nat \<Rightarrow> string" where
  "nat_to_string n =
     (if n < 10 then [''0123456789'' ! n]
      else nat_to_string (n div 10) @ [''0123456789'' ! (n mod 10)])"

declare nat_to_string.simps [simp del]

text \<open>The text that a template literal gives a number, and its truthiness.\<close>

fun number_text :: "number \<Rightarrow> string" where
  "number_text Zero = ''0''"
| "number_text (Nonzero s) = s"

fun falsy :: "number \<Rightarrow> bool" where
  "falsy Zero = True"
| "falsy (Nonzero s) = False"

definition setPosts :: "(post list \<Rightarrow> post list) \<Rightarrow> world \<Rightarrow> world" where
  "setPosts f w = w\<lparr>posts := f (posts w)\<rparr>"

definition addNotification ::
  "string \<Rightarrow> string \<Rightarrow> string \<Rightarrow> string option \<Rightarrow> world \<Rightarrow> world" where
  "addNotification ty ti msg pid w =
     w\<lparr>notifications := notifications w @
          [\<lparr>n_type = ty, n_title = ti, n_message = msg, n_postId = pid\<rparr>]\<rparr>"

definition issue :: "call list \<Rightarrow> world \<Rightarrow> world" where
  "issue cs w = w\<lparr>calls := calls w @ cs\<rparr>"

text \<open>\<^verbatim>\<open>prevPosts.map(p => p.id === id ? f(p) : p)\<close>, the update used throughout.\<close>

definition replace_by_id :: "string \<Rightarrow> (post \<Rightarrow> post) \<Rightarrow> post list \<Rightarrow> post list" where
  "replace_by_id i f ps = map (\<lambda>p. if post_id p = i then f p else p) ps"

section \<open>Video status polling\<close>

text \<open>
  What the collaborators answer during one poll cycle. \<open>statusResponse env post\<close> is the
  outcome of the status request issued for \<open>post\<close>: \<open>None\<close> when the promise rejects
  (network error, a response that is not ok, an unreadable body), otherwise the video
  object of the body. \<open>fetchResponse env post v\<close> is the outcome of the download request
  for the completed video \<open>v\<close>: \<open>None\<close> when the request rejects, the response is not ok or
  the body cannot be read, otherwise \<^verbatim>\<open>data.videoData\<close>. \<open>autoSaveResolves env url topic\<close>
  tells whether the awaited \<^verbatim>\<open>autoSaveAIMedia(url, 'video', topic)\<close> resolves; the media
  service is not part of the sources at hand, so its outcome is a parameter. A body
  without a video object makes the callback throw before it touches anything, which
  leaves the world as a rejection does; it has no outcome of its own here.
\<close>

record poll_env =
  statusResponse :: "post \<Rightarrow> video option"
  fetchResponse :: "post \<Rightarrow> video \<Rightarrow> string option"
  autoSaveResolves :: "string \<Rightarrow> string \<Rightarrow> bool"

text \<open>An element of the array that \<^verbatim>\<open>Promise.allSettled\<close> resolves to.\<close>

datatype settled = Rejected | Fulfilled post video

text \<open>The filter at the head of \<^verbatim>\<open>pollVideoStatuses\<close>.\<close>

definition isActiveVideoPost :: "post \<Rightarrow> bool" where
  "isActiveVideoPost p =
     (isGeneratingVideo p \<and>
      (case operation_id p of None \<Rightarrow> False | Some i \<Rightarrow> truthy i) \<and>
      operation_status p \<noteq> Some ''completed'' \<and>
      operation_status p \<noteq> Some ''failed'')"

definition videoPosts :: "post list \<Rightarrow> post list" where
  "videoPosts ps = filter isActiveVideoPost ps"

text \<open>
  The body of one status request, \<^verbatim>\<open>{ videoId: post.videoOperation.id }\<close>. The read
  would throw on a post without a handle; the filter lets none through
  (lemma \<open>videoPosts_has_job\<close>), so that branch only makes the function total.
\<close>

definition statusRequest :: "post \<Rightarrow> call" where
  "statusRequest p =
     VideoStatusRequest (case videoOperation p of None \<Rightarrow> [] | Some v \<Rightarrow> video_id v)"

definition settle :: "poll_env \<Rightarrow> post \<Rightarrow> settled" where
  "settle env p =
     (case statusResponse env p of None \<Rightarrow> Rejected | Some v \<Rightarrow> Fulfilled p v)"

text \<open>The three updaters and the one of the catch block, as functions of the latest post.\<close>

definition completedUpdate :: "string \<Rightarrow> video \<Rightarrow> post \<Rightarrow> post" where
  "completedUpdate videoUrl updatedVideo prev =
     prev\<lparr>generatedVideoUrl := Some videoUrl,
          isGeneratingVideo := False,
          videoGenerationStatus := ''Completed!'',
          videoOperation := Some updatedVideo\<rparr>"

definition fetchFailedUpdate :: "post \<Rightarrow> post" where
  "fetchFailedUpdate p = p\<lparr>isGeneratingVideo := False, videoGenerationStatus := ''Failed.''\<rparr>"

definition errorMsg :: "video \<Rightarrow> string" where
  "errorMsg updatedVideo =
     (case error_message updatedVideo of
        None \<Rightarrow> ''Video generation failed''
      | Some m \<Rightarrow> if truthy m then m else ''Video generation failed'')"

definition failedUpdate :: "video \<Rightarrow> post \<Rightarrow> post" where
  "failedUpdate updatedVideo p =
     p\<lparr>isGeneratingVideo := False,
       videoGenerationStatus := ''Failed: '' @ errorMsg updatedVideo,
       videoOperation := Some updatedVideo\<rparr>"

text \<open>\<^verbatim>\<open>updatedVideo.progress || 0\<close>\<close>

definition progressOf :: "video \<Rightarrow> number" where
  "progressOf updatedVideo =
     (case progress updatedVideo of
        None \<Rightarrow> Zero
      | Some p \<Rightarrow> if falsy p then Zero else p)"

definition processingUpdate :: "video \<Rightarrow> post \<Rightarrow> post" where
  "processingUpdate updatedVideo p =
     p\<lparr>videoGenerationStatus :=
          ''Processing... '' @ number_text (progressOf updatedVideo) @ ''%'',
       videoOperation := Some updatedVideo\<rparr>"

text \<open>
  The callback of \<^verbatim>\<open>results.forEach\<close>. In the completed branch the download request
  goes out first; the auto-save, the update and the notification follow only when the
  steps before them went through, and any failure inside the try block lands in the
  catch block.
\<close>

fun reconcile :: "poll_env \<Rightarrow> world \<Rightarrow> settled \<Rightarrow> world" where
  "reconcile env w Rejected = w"
| "reconcile env w (Fulfilled post updatedVideo) =
     (if video_status updatedVideo = ''completed'' then
        (let w1 = issue [VideoFetchRequest (video_id updatedVideo)] w in
         case fetchResponse env post updatedVideo of
           None \<Rightarrow> setPosts (replace_by_id (post_id post) fetchFailedUpdate) w1
         | Some videoUrl \<Rightarrow>
             (let w2 = issue [AutoSaveMedia videoUrl ''video'' (topic post)] w1 in
              if autoSaveResolves env videoUrl (topic post) then
                addNotification ''video_complete'' ''Video Generation Complete''
                  (''Video for '' @ [CHR 0x22] @ topic post @ [CHR 0x22] @ '' is ready!'')
                  (Some (post_id post))
                  (setPosts (replace_by_id (post_id post)
                     (completedUpdate videoUrl updatedVideo)) w2)
              else setPosts (replace_by_id (post_id post) fetchFailedUpdate) w2))
      else if video_status updatedVideo = ''failed'' then
        setPosts (replace_by_id (post_id post) (failedUpdate updatedVideo)) w
      else
        setPosts (replace_by_id (post_id post) (processingUpdate updatedVideo)) w)"

text \<open>
  One run of \<^verbatim>\<open>pollVideoStatuses\<close>. All status requests are issued before any result
  is looked at. The callbacks of the completed branch wait for their download, so in
  the browser their updates may land after those of later results; every update
  addresses posts by id only, and the fold below applies them in the order of the
  results. With unique post ids the order makes no difference to the resulting
  collection (lemma \<open>reconcile_order\<close>).
\<close>

definition pollVideoStatuses :: "poll_env \<Rightarrow> world \<Rightarrow> world" where
  "pollVideoStatuses env w =
     (let vps = videoPosts (posts w) in
      if length vps = 0 then w
      else foldl (reconcile env) (issue (map statusRequest vps) w) (map (settle env) vps))"

section \<open>Scheduled publishing\<close>

text \<open>
  Modelled from the spec: the object returned by
  \<^verbatim>\<open>publishingService.validatePostForPublishing\<close>, with the two fields that
  \<^verbatim>\<open>publishPost\<close> reads; the service is not among the sources.
\<close>

record validation =
  valid :: bool
  errors :: "string list option"

text \<open>
  What the collaborators answer while posts are published. \<open>workspace env\<close> is the
  workspace id when \<^verbatim>\<open>user && workspaceId\<close> is truthy and \<open>None\<close> otherwise.
  \<open>dateValue env s\<close> is the time value of \<^verbatim>\<open>new Date(s)\<close>, \<open>None\<close> for an invalid date.
  \<open>publishService env post\<close> is the result list of \<^verbatim>\<open>publishingService.publishPost\<close>,
  \<open>None\<close> when it rejects. \<open>libraryResolves env post\<close> tells whether the archive request
  resolves (its status is not looked at), \<open>deleteOk env i\<close> whether the delete request for
  id \<open>i\<close> resolves with an ok response. The publishing service is not part of the sources
  at hand, so its answers are parameters.
\<close>

record publish_env =
  workspace :: "string option"
  dateValue :: "string \<Rightarrow> int option"
  validatePostForPublishing :: "post \<Rightarrow> validation"
  publishService :: "post \<Rightarrow> platform_result list option"
  libraryResolves :: "post \<Rightarrow> bool"
  deleteOk :: "string \<Rightarrow> bool"

text \<open>How an awaited call ends; either way the world is the one reached so far.\<close>

datatype outcome = Returned world | Threw world

fun join :: "string \<Rightarrow> string list \<Rightarrow> string" where
  "join sep [] = []"
| "join sep [x] = x"
| "join sep (x # y # ys) = x @ sep @ join sep (y # ys)"

text \<open>\<^verbatim>\<open>validation.errors?.join(', ') || 'Post validation failed'\<close>\<close>

definition validationMessage :: "validation \<Rightarrow> string" where
  "validationMessage v =
     (case errors v of
        None \<Rightarrow> ''Post validation failed''
      | Some es \<Rightarrow> if truthy (join '', '' es) then join '', '' es
                  else ''Post validation failed'')"

text \<open>
  \<^verbatim>\<open>deletePost\<close>: the post leaves the collection at once; the delete request and its
  notification follow when a user and a workspace are there. Its own try block catches
  a failed request.
\<close>

definition deletePost :: "publish_env \<Rightarrow> world \<Rightarrow> string \<Rightarrow> world" where
  "deletePost env w postId =
     (let w1 = setPosts (filter (\<lambda>post. post_id post \<noteq> postId)) w in
      case workspace env of
        None \<Rightarrow> w1
      | Some ws \<Rightarrow>
          (let w2 = issue [DeleteRequest postId ws] w1 in
           if deleteOk env postId then
             addNotification ''post_scheduled'' ''Post Deleted'' ''Post has been removed.'' None w2
           else
             addNotification ''error'' ''Delete Error''
               ''Failed to delete post from database'' None w2))"

definition successCount :: "platform_result list \<Rightarrow> nat" where
  "successCount results = length (filter success results)"

definition publishedMessage :: "platform_result list \<Rightarrow> string" where
  "publishedMessage results =
     ''Posted to '' @ nat_to_string (successCount results) @ ''/'' @
     nat_to_string (length results) @ '' platforms''"

text \<open>The archive step of \<^verbatim>\<open>publishPost\<close>; the flag is false when the awaited request rejects.\<close>

definition archive ::
  "publish_env \<Rightarrow> world \<Rightarrow> post \<Rightarrow> platform_result list \<Rightarrow> world \<times> bool" where
  "archive env w post results =
     (case workspace env of
        None \<Rightarrow> (w, True)
      | Some ws \<Rightarrow> (issue [LibraryRequest post results ws] w, libraryResolves env post))"

text \<open>
  \<^verbatim>\<open>publishPost\<close>. The whole body sits in one try block whose catch block notifies, so
  the call always returns.
\<close>

definition publishPost :: "publish_env \<Rightarrow> world \<Rightarrow> post \<Rightarrow> outcome" where
  "publishPost env w post =
     (let w0 = issue [ValidateCall post] w;
          validation = validatePostForPublishing env post in
      if \<not> valid validation then
        Returned (addNotification ''error'' ''Validation Error''
                    (validationMessage validation) None w0)
      else
        (let w1 = issue [PublishCall post] w0 in
         case publishService env post of
           None \<Rightarrow>
             Returned (addNotification ''error'' ''Publishing Error''
                         ''Failed to publish post to platforms'' None w1)
         | Some results \<Rightarrow>
             (case archive env w1 post results of
                (w2, False) \<Rightarrow>
                  Returned (addNotification ''error'' ''Publishing Error''
                              ''Failed to publish post to platforms'' None w2)
              | (w2, True) \<Rightarrow>
                  Returned (addNotification ''post_published'' ''Post Published''
                              (publishedMessage results) (Some (post_id post))
                              (deletePost env w2 (post_id post))))))"

text \<open>The filter at the head of \<^verbatim>\<open>checkScheduledPosts\<close>, at the time value \<open>now\<close>.\<close>

definition isDue :: "publish_env \<Rightarrow> int \<Rightarrow> post \<Rightarrow> bool" where
  "isDue env now post =
     (status post = ''scheduled'' \<and>
      (case scheduledAt post of
         None \<Rightarrow> False
       | Some s \<Rightarrow> truthy s \<and>
           (case dateValue env s of None \<Rightarrow> False | Some t \<Rightarrow> t \<le> now)))"

definition readyToPublish :: "publish_env \<Rightarrow> int \<Rightarrow> post list \<Rightarrow> post list" where
  "readyToPublish env now ps = filter (isDue env now) ps"

text \<open>The body of the for loop: one awaited \<^verbatim>\<open>publishPost\<close> inside its own try block.\<close>

definition autoPublish :: "publish_env \<Rightarrow> world \<Rightarrow> post \<Rightarrow> world" where
  "autoPublish env w post =
     (case publishPost env w post of
        Returned w' \<Rightarrow> w'
      | Threw w' \<Rightarrow>
          addNotification ''error'' ''Publishing Error''
            (''Failed to publish '' @ [CHR 0x22] @ topic post @ [CHR 0x22]) None w')"

definition checkScheduledPosts :: "publish_env \<Rightarrow> int \<Rightarrow> world \<Rightarrow> world" where
  "checkScheduledPosts env now w =
     foldl (autoPublish env) w (readyToPublish env now (posts w))"

section \<open>Vocabulary of the properties\<close>

definition is_status_request :: "call \<Rightarrow> bool" where
  "is_status_request c = (case c of VideoStatusRequest _ \<Rightarrow> True | _ \<Rightarrow> False)"

definition is_fetch_request :: "call \<Rightarrow> bool" where
  "is_fetch_request c = (case c of VideoFetchRequest _ \<Rightarrow> True | _ \<Rightarrow> False)"

text \<open>The post that the collection holds under an id.\<close>

definition lookup_post :: "string \<Rightarrow> post list \<Rightarrow> post option" where
  "lookup_post i ps = find (\<lambda>q. post_id q = i) ps"

text \<open>What one poll cycle makes of a selected post, by the answers it gets.\<close>

definition updater :: "poll_env \<Rightarrow> post \<Rightarrow> post \<Rightarrow> post" where
  "updater env p =
     (case statusResponse env p of
        None \<Rightarrow> (\<lambda>q. q)
      | Some v \<Rightarrow>
          if video_status v = ''completed'' then
            (case fetchResponse env p v of
               None \<Rightarrow> fetchFailedUpdate
             | Some u \<Rightarrow> if autoSaveResolves env u (topic p) then completedUpdate u v
                         else fetchFailedUpdate)
          else if video_status v = ''failed'' then failedUpdate v
          else processingUpdate v)"

definition reconciled :: "poll_env \<Rightarrow> post \<Rightarrow> post" where
  "reconciled env q = (if isActiveVideoPost q then updater env q q else q)"

text \<open>
  Callbacks of the poller in any order and from any tick of the timer: each reconciles
  one settled result against the latest collection, with the answers of its own tick.
  Nothing keeps a tick from firing while the downloads of an earlier one are awaited, so
  the callbacks that follow an update need not belong to later scans.
\<close>

definition callbacks :: "(poll_env \<times> settled) list \<Rightarrow> world \<Rightarrow> world" where
  "callbacks steps w = foldl (\<lambda>w (e, r). reconcile e w r) w steps"

text \<open>
  Two ticks of \<^verbatim>\<open>setInterval(pollVideoStatuses, 15000)\<close> that overlap: the second fires
  before the results of the first are reconciled, so both scans read the same collection
  and both issue their status requests; then the results of the first tick are
  reconciled, and after them those of the second.
\<close>

definition overlappingPolls :: "poll_env \<Rightarrow> poll_env \<Rightarrow> world \<Rightarrow> world" where
  "overlappingPolls env1 env2 w =
     (let vps = videoPosts (posts w) in
      if length vps = 0 then w
      else foldl (reconcile env2)
             (foldl (reconcile env1)
                (issue (map statusRequest vps) (issue (map statusRequest vps) w))
                (map (settle env1) vps))
             (map (settle env2) vps))"

text \<open>The completion notification that carries a given post id.\<close>

definition is_completion_for :: "string \<Rightarrow> notification \<Rightarrow> bool" where
  "is_completion_for i n = (n_type n = ''video_complete'' \<and> n_postId n = Some i)"

text \<open>The notifications that the callback for a selected post emits.\<close>

definition announced :: "poll_env \<Rightarrow> post \<Rightarrow> notification list" where
  "announced env p =
     (case statusResponse env p of
        None \<Rightarrow> []
      | Some v \<Rightarrow>
          if video_status v = ''completed'' then
            (case fetchResponse env p v of
               None \<Rightarrow> []
             | Some u \<Rightarrow>
                 if autoSaveResolves env u (topic p) then
                   [\<lparr>n_type = ''video_complete'', n_title = ''Video Generation Complete'',
                     n_message = ''Video for '' @ [CHR 0x22] @ topic p @ [CHR 0x22] @ '' is ready!'',
                     n_postId = Some (post_id p)\<rparr>]
                 else [])
          else [])"

text \<open>The status request for a post comes back with a completed video.\<close>

definition answers_completed :: "poll_env \<Rightarrow> post \<Rightarrow> bool" where
  "answers_completed env p =
     (case statusResponse env p of None \<Rightarrow> False | Some v \<Rightarrow> video_status v = ''completed'')"

text \<open>A notification that carries a given post id.\<close>

definition concerns :: "string \<Rightarrow> notification \<Rightarrow> bool" where
  "concerns i n = (n_postId n = Some i)"

text \<open>The calls by which the tracker hands a post to the publishing service.\<close>

definition is_validate_call :: "call \<Rightarrow> bool" where
  "is_validate_call c = (case c of ValidateCall _ \<Rightarrow> True | _ \<Rightarrow> False)"



text \<open>The post passes the validation of the publishing service.\<close>

definition passes :: "publish_env \<Rightarrow> post \<Rightarrow> bool" where
  "passes env post = valid (validatePostForPublishing env post)"

text \<open>The archive request is sent and rejects.\<close>

definition archiveRejects :: "publish_env \<Rightarrow> post \<Rightarrow> bool" where
  "archiveRejects env post =
     (case workspace env of None \<Rightarrow> False | Some ws \<Rightarrow> \<not> libraryResolves env post)"

text \<open>Something inside the try block of \<^verbatim>\<open>publishPost\<close> throws after the validation.\<close>

definition publishRaises :: "publish_env \<Rightarrow> post \<Rightarrow> bool" where
  "publishRaises env post =
     (passes env post \<and>
      (case publishService env post of None \<Rightarrow> True | Some results \<Rightarrow> archiveRejects env post))"

text \<open>The try block of \<^verbatim>\<open>publishPost\<close> runs to its end.\<close>

definition publishes :: "publish_env \<Rightarrow> post \<Rightarrow> bool" where
  "publishes env post =
     (passes env post \<and>
      (case publishService env post of None \<Rightarrow> False | Some results \<Rightarrow> \<not> archiveRejects env post))"

text \<open>The world that an awaited call leaves behind.\<close>

definition world_after :: "outcome \<Rightarrow> world" where
  "world_after r = (case r of Returned w \<Rightarrow> w | Threw w \<Rightarrow> w)"

text \<open>Any number of further scheduled-post scans, each with its answers and its time.\<close>

definition scheduleCycles :: "(publish_env \<times> int) list \<Rightarrow> world \<Rightarrow> world" where
  "scheduleCycles cs w = foldl (\<lambda>w (e, t). checkScheduledPosts e t w) w cs"

text \<open>Result lists, calls and notifications with the success flags and the counts blanked.\<close>

definition mask_success :: "platform_result \<Rightarrow> platform_result" where
  "mask_success r = r\<lparr>success := False\<rparr>"

definition mask_call :: "call \<Rightarrow> call" where
  "mask_call c =
     (case c of LibraryRequest p rs ws \<Rightarrow> LibraryRequest p (map mask_success rs) ws | _ \<Rightarrow> c)"

definition mask_note :: "notification \<Rightarrow> notification" where
  "mask_note n = (if n_type n = ''post_published'' then n\<lparr>n_message := []\<rparr> else n)"

text \<open>The same collaborators, with a given result list for one post.\<close>

definition with_results :: "publish_env \<Rightarrow> post \<Rightarrow> platform_result list \<Rightarrow> publish_env" where
  "with_results env post rs = env\<lparr>publishService := (publishService env)(post := Some rs)\<rparr>"

section \<open>Sample data\<close>

definition blank_post :: post where
  "blank_post =
     \<lparr>post_id = ''p0'', topic = ''Launch'', status = ''draft'', scheduledAt = None,
      isGeneratingVideo = False, videoOperation = None, generatedVideoUrl = None,
      videoGenerationStatus = []\<rparr>"

definition job :: "string \<Rightarrow> string \<Rightarrow> video" where
  "job i s = \<lparr>video_id = i, video_status = s, progress = None, error_message = None\<rparr>"

definition generating_post :: "string \<Rightarrow> string \<Rightarrow> post" where
  "generating_post i j =
     blank_post\<lparr>post_id := i, isGeneratingVideo := True,
                videoOperation := Some (job j ''processing'')\<rparr>"

definition silent_env :: poll_env where
  "silent_env =
     \<lparr>statusResponse = (\<lambda>_. None), fetchResponse = (\<lambda>_ _. None),
      autoSaveResolves = (\<lambda>_ _. True)\<rparr>"

definition provider :: "video \<Rightarrow> string option \<Rightarrow> bool \<Rightarrow> poll_env" where
  "provider v u s =
     \<lparr>statusResponse = (\<lambda>_. Some v), fetchResponse = (\<lambda>_ _. u),
      autoSaveResolves = (\<lambda>_ _. s)\<rparr>"

definition answering_for :: "string \<Rightarrow> video \<Rightarrow> poll_env" where
  "answering_for i v =
     \<lparr>statusResponse = (\<lambda>q. if post_id q = i then Some v else None),
      fetchResponse = (\<lambda>_ _. None), autoSaveResolves = (\<lambda>_ _. True)\<rparr>"

definition sample_dates :: "string \<Rightarrow> int option" where
  "sample_dates s =
     (if s = ''2025-01-01T09:55:00Z'' then Some 1735725300000
      else if s = ''2025-01-01T10:05:00Z'' then Some 1735725900000
      else None)"

definition scheduled_post :: "string \<Rightarrow> string \<Rightarrow> post" where
  "scheduled_post i at = blank_post\<lparr>post_id := i, status := ''scheduled'', scheduledAt := Some at\<rparr>"

definition posted :: "bool \<Rightarrow> platform_result" where
  "posted s = \<lparr>platform = ''twitter'', success = s, url = None, error = None\<rparr>"

definition publisher ::
  "(post \<Rightarrow> bool) \<Rightarrow> (post \<Rightarrow> platform_result list option) \<Rightarrow> publish_env" where
  "publisher ok results =
     \<lparr>workspace = Some ''ws1'', dateValue = sample_dates,
      validatePostForPublishing = (\<lambda>p. \<lparr>valid = ok p, errors = Some [''No content'']\<rparr>),
      publishService = results, libraryResolves = (\<lambda>_. True), deleteOk = (\<lambda>_. True)\<rparr>"


definition world_of :: "post list \<Rightarrow> world" where
  "world_of ps = \<lparr>posts = ps, notifications = [], calls = []\<rparr>"

section \<open>Facts about a poll cycle\<close>

lemma posts_simps [simp]:
  "posts (setPosts f w) = f (posts w)"
  "posts (addNotification a b c d w) = posts w"
  "posts (issue cs w) = posts w"
  by (simp_all add: setPosts_def addNotification_def issue_def)

lemma calls_simps [simp]:
  "calls (setPosts f w) = calls w"
  "calls (addNotification a b c d w) = calls w"
  "calls (issue cs w) = calls w @ cs"
  by (simp_all add: setPosts_def addNotification_def issue_def)

lemma notifications_simps [simp]:
  "notifications (setPosts f w) = notifications w"
  "notifications (addNotification a b c d w) =
     notifications w @ [\<lparr>n_type = a, n_title = b, n_message = c, n_postId = d\<rparr>]"
  "notifications (issue cs w) = notifications w"
  by (simp_all add: setPosts_def addNotification_def issue_def)

lemma videoPosts_has_job:
  "p \<in> set (videoPosts ps) \<Longrightarrow> \<exists>v. videoOperation p = Some v \<and> video_id v \<noteq> []"
  by (auto simp: videoPosts_def isActiveVideoPost_def operation_id_def truthy_def
           split: option.splits)

lemma updater_post_id [simp]: "post_id (updater env p q) = post_id q"
  by (simp add: updater_def completedUpdate_def fetchFailedUpdate_def failedUpdate_def
        processingUpdate_def split: option.splits)

lemma posts_reconcile:
  "posts (reconcile env w (settle env p)) = replace_by_id (post_id p) (updater env p) (posts w)"
  by (simp add: settle_def updater_def replace_by_id_def Let_def split: option.splits)

lemma find_id_None:
  "post_id q \<notin> post_id ` set sel \<Longrightarrow> find (\<lambda>p. post_id p = post_id q) sel = None"
  by (induction sel) auto

lemma posts_foldl_reconcile:
  "distinct (map post_id sel) \<Longrightarrow>
   posts (foldl (reconcile env) w (map (settle env) sel)) =
   map (\<lambda>q. case find (\<lambda>p. post_id p = post_id q) sel of
              None \<Rightarrow> q | Some p \<Rightarrow> updater env p q) (posts w)"
proof (induction sel arbitrary: w)
  case Nil
  then show ?case by simp
next
  case (Cons p sel)
  have fresh: "post_id p \<notin> post_id ` set sel" using Cons.prems by simp
  have IH: "posts (foldl (reconcile env) (reconcile env w (settle env p)) (map (settle env) sel)) =
    map (\<lambda>q. case find (\<lambda>p. post_id p = post_id q) sel of
              None \<Rightarrow> q | Some p \<Rightarrow> updater env p q)
      (replace_by_id (post_id p) (updater env p) (posts w))"
    using Cons.IH [of "reconcile env w (settle env p)"] Cons.prems
    by (simp add: posts_reconcile)
  show ?case
    unfolding list.map foldl_Cons IH replace_by_id_def map_map
  proof (rule map_cong [OF refl])
    fix q assume "q \<in> set (posts w)"
    show "((\<lambda>q. case find (\<lambda>p. post_id p = post_id q) sel of
              None \<Rightarrow> q | Some p \<Rightarrow> updater env p q) \<circ>
           (\<lambda>pa. if post_id pa = post_id p then updater env p pa else pa)) q =
          (case find (\<lambda>pa. post_id pa = post_id q) (p # sel) of
              None \<Rightarrow> q | Some p \<Rightarrow> updater env p q)"
    proof (cases "post_id q = post_id p")
      case True
      then have "find (\<lambda>pa. post_id pa = post_id p) sel = None"
        using fresh find_id_None [of p sel] by simp
      with True show ?thesis by simp
    next
      case False
      then have "post_id p \<noteq> post_id q" by simp
      with False show ?thesis by simp
    qed
  qed
qed

lemma find_filter_distinct:
  "distinct (map post_id ps) \<Longrightarrow> q \<in> set ps \<Longrightarrow>
   find (\<lambda>p. post_id p = post_id q) (filter P ps) = (if P q then Some q else None)"
proof (induction ps)
  case Nil
  then show ?case by simp
next
  case (Cons a ps)
  show ?case
  proof (cases "q = a")
    case True
    have "post_id a \<notin> post_id ` set (filter P ps)" using Cons.prems by auto
    then have "find (\<lambda>p. post_id p = post_id a) (filter P ps) = None"
      by (rule find_id_None)
    with True show ?thesis by simp
  next
    case False
    then have "q \<in> set ps" using Cons.prems by simp
    then have "post_id a \<noteq> post_id q" using Cons.prems by auto
    then show ?thesis using Cons \<open>q \<in> set ps\<close> by simp
  qed
qed

lemma distinct_videoPosts:
  "distinct (map post_id ps) \<Longrightarrow> distinct (map post_id (videoPosts ps))"
  unfolding videoPosts_def by (rule distinct_map_filter)

lemma posts_pollVideoStatuses:
  assumes "distinct (map post_id (posts w))"
  shows "posts (pollVideoStatuses env w) = map (reconciled env) (posts w)"
proof (cases "videoPosts (posts w) = []")
  case True
  then have "\<forall>q \<in> set (posts w). \<not> isActiveVideoPost q"
    by (simp add: videoPosts_def filter_empty_conv)
  then have "map (reconciled env) (posts w) = posts w"
    by (simp add: reconciled_def map_idI)
  with True show ?thesis by (simp add: pollVideoStatuses_def)
next
  case False
  have "posts (pollVideoStatuses env w) =
        map (\<lambda>q. case find (\<lambda>p. post_id p = post_id q) (videoPosts (posts w)) of
              None \<Rightarrow> q | Some p \<Rightarrow> updater env p q) (posts w)"
    using False posts_foldl_reconcile [OF distinct_videoPosts [OF assms], of env "issue (map statusRequest (videoPosts (posts w))) w"]
    by (simp add: pollVideoStatuses_def Let_def)
  also have "\<dots> = map (reconciled env) (posts w)"
  proof (rule map_cong [OF refl])
    fix q assume "q \<in> set (posts w)"
    then show "(case find (\<lambda>p. post_id p = post_id q) (videoPosts (posts w)) of
              None \<Rightarrow> q | Some p \<Rightarrow> updater env p q) = reconciled env q"
      using find_filter_distinct [OF assms, of q isActiveVideoPost]
      by (simp add: videoPosts_def reconciled_def)
  qed
  finally show ?thesis .
qed

lemma lookup_post_map:
  assumes "distinct (map post_id ps)" "p \<in> set ps" "\<And>q. post_id (f q) = post_id q"
  shows "lookup_post (post_id p) (map f ps) = Some (f p)"
  using assms(1,2)
proof (induction ps)
  case Nil
  then show ?case by simp
next
  case (Cons a ps)
  then show ?case using assms(3) by (auto simp: lookup_post_def)
qed

lemma calls_reconcile_extends:
  "\<exists>cs. calls (reconcile env w r) = calls w @ cs \<and> filter is_status_request cs = []"
proof (cases r)
  case Rejected
  then show ?thesis by simp
next
  case (Fulfilled p v)
  show ?thesis
  proof (cases "fetchResponse env p v")
    case None
    with Fulfilled show ?thesis by (simp add: Let_def is_status_request_def)
  next
    case (Some u)
    with Fulfilled show ?thesis by (simp add: Let_def is_status_request_def)
  qed
qed

lemma calls_foldl_reconcile_extends:
  "\<exists>cs. calls (foldl (reconcile env) w rs) = calls w @ cs \<and> filter is_status_request cs = []"
proof (induction rs arbitrary: w)
  case Nil
  then show ?case by simp
next
  case (Cons r rs)
  obtain cs where cs: "calls (reconcile env w r) = calls w @ cs" "filter is_status_request cs = []"
    using calls_reconcile_extends by blast
  obtain ds where ds: "calls (foldl (reconcile env) (reconcile env w r) rs) =
      calls (reconcile env w r) @ ds" "filter is_status_request ds = []"
    using Cons.IH by blast
  have "calls (foldl (reconcile env) w (r # rs)) = calls w @ (cs @ ds)" using cs ds by simp
  moreover have "filter is_status_request (cs @ ds) = []" using cs ds by simp
  ultimately show ?case by blast
qed

lemma calls_pollVideoStatuses:
  "\<exists>later. calls (pollVideoStatuses env w) =
      calls w @ map statusRequest (videoPosts (posts w)) @ later \<and>
      filter is_status_request later = []"
proof (cases "videoPosts (posts w) = []")
  case True
  then show ?thesis by (simp add: pollVideoStatuses_def)
next
  case False
  obtain cs where "calls (foldl (reconcile env) (issue (map statusRequest (videoPosts (posts w))) w)
       (map (settle env) (videoPosts (posts w)))) =
      calls (issue (map statusRequest (videoPosts (posts w))) w) @ cs"
      "filter is_status_request cs = []"
    using calls_foldl_reconcile_extends by blast
  with False show ?thesis by (simp add: pollVideoStatuses_def Let_def)
qed

lemma notifications_reconcile:
  "notifications (reconcile env w (settle env p)) = notifications w @ announced env p"
  by (simp add: settle_def announced_def Let_def split: option.splits)

lemma notifications_foldl_reconcile:
  "notifications (foldl (reconcile env) w (map (settle env) sel)) =
   notifications w @ concat (map (announced env) sel)"
  by (induction sel arbitrary: w) (simp_all add: notifications_reconcile)

lemma notifications_pollVideoStatuses:
  "notifications (pollVideoStatuses env w) =
   notifications w @ concat (map (announced env) (videoPosts (posts w)))"
proof (cases "videoPosts (posts w) = []")
  case True
  then show ?thesis by (simp add: pollVideoStatuses_def)
next
  case False
  then show ?thesis
    using notifications_foldl_reconcile
      [of env "issue (map statusRequest (videoPosts (posts w))) w" "videoPosts (posts w)"]
    by (simp add: pollVideoStatuses_def Let_def)
qed

lemma announced_cases:
  "announced env q = [] \<or> (\<exists>n. announced env q = [n] \<and> n_postId n = Some (post_id q))"
proof (cases "statusResponse env q")
  case None
  then show ?thesis by (simp add: announced_def)
next
  case (Some v)
  then show ?thesis
    by (cases "fetchResponse env q v") (simp_all add: announced_def)
qed

lemma announced_other:
  "post_id q \<noteq> i \<Longrightarrow> filter (is_completion_for i) (announced env q) = []"
  using announced_cases [of env q] by (auto simp: is_completion_for_def)

lemma announced_others:
  "i \<notin> post_id ` set sel \<Longrightarrow>
   filter (is_completion_for i) (concat (map (announced env) sel)) = []"
  by (induction sel) (auto simp: announced_other)

lemma announced_selected:
  "distinct (map post_id sel) \<Longrightarrow> p \<in> set sel \<Longrightarrow>
   filter (is_completion_for (post_id p)) (concat (map (announced env) sel)) =
   filter (is_completion_for (post_id p)) (announced env p)"
proof (induction sel)
  case Nil
  then show ?case by simp
next
  case (Cons a sel)
  show ?case
  proof (cases "p = a")
    case True
    then have "post_id p \<notin> post_id ` set sel" using Cons.prems by simp
    then show ?thesis using True by (simp add: announced_others)
  next
    case False
    then have "p \<in> set sel" using Cons.prems by simp
    then have "post_id a \<noteq> post_id p" using Cons.prems by auto
    then show ?thesis using Cons \<open>p \<in> set sel\<close> by (simp add: announced_other)
  qed
qed

lemma reconciled_post_id [simp]: "post_id (reconciled env q) = post_id q"
  by (simp add: reconciled_def)

lemma ids_pollVideoStatuses:
  "distinct (map post_id (posts w)) \<Longrightarrow>
   map post_id (posts (pollVideoStatuses env w)) = map post_id (posts w)"
  by (simp add: posts_pollVideoStatuses)

lemma lookup_post_SomeD:
  "lookup_post i ps = Some q \<Longrightarrow> q \<in> set ps \<and> post_id q = i"
  unfolding lookup_post_def by (induction ps) (auto split: if_splits)

lemma lookup_post_unique:
  "distinct (map post_id ps) \<Longrightarrow> q \<in> set ps \<Longrightarrow> lookup_post (post_id q) ps = Some q"
  using lookup_post_map [of ps q "\<lambda>x. x"] by simp

lemma videoPosts_subset: "q \<in> set (videoPosts ps) \<Longrightarrow> q \<in> set ps \<and> isActiveVideoPost q"
  by (simp add: videoPosts_def)

lemma selected_post_reconciled:
  assumes "distinct (map post_id (posts w))" and "p \<in> set (videoPosts (posts w))"
  shows "lookup_post (post_id p) (posts (pollVideoStatuses env w)) = Some (updater env p p)"
proof -
  from assms(2) have p: "p \<in> set (posts w)" "isActiveVideoPost p" using videoPosts_subset by auto
  have "lookup_post (post_id p) (map (reconciled env) (posts w)) = Some (reconciled env p)"
    using assms(1) p(1) by (rule lookup_post_map) simp
  then show ?thesis using assms(1) p(2) by (simp add: posts_pollVideoStatuses reconciled_def)
qed

lemma fetch_requests_reconcile:
  "length (filter is_fetch_request (calls (reconcile env w (settle env p)))) =
   length (filter is_fetch_request (calls w)) + (if answers_completed env p then 1 else 0)"
proof (cases "statusResponse env p")
  case None
  then show ?thesis by (simp add: settle_def answers_completed_def)
next
  case (Some v)
  then show ?thesis
    by (cases "fetchResponse env p v")
       (simp_all add: settle_def answers_completed_def Let_def is_fetch_request_def)
qed

lemma fetch_requests_foldl_reconcile:
  "length (filter is_fetch_request (calls (foldl (reconcile env) w (map (settle env) sel)))) =
   length (filter is_fetch_request (calls w)) + length (filter (answers_completed env) sel)"
  by (induction sel arbitrary: w) (simp_all add: fetch_requests_reconcile)

lemma fetch_requests_status:
  "filter is_fetch_request (map statusRequest ps) = []"
  by (induction ps) (simp_all add: statusRequest_def is_fetch_request_def)

lemma fetch_requests_pollVideoStatuses:
  "length (filter is_fetch_request (calls (pollVideoStatuses env w))) =
   length (filter is_fetch_request (calls w)) +
   length (filter (answers_completed env) (videoPosts (posts w)))"
proof (cases "videoPosts (posts w) = []")
  case True
  then show ?thesis by (simp add: pollVideoStatuses_def)
next
  case False
  then show ?thesis
    using fetch_requests_foldl_reconcile
      [of env "issue (map statusRequest (videoPosts (posts w))) w" "videoPosts (posts w)"]
    by (simp add: pollVideoStatuses_def Let_def fetch_requests_status)
qed

lemma lookup_post_member:
  "lookup_post i ps = Some q \<Longrightarrow> isActiveVideoPost q \<Longrightarrow> q \<in> set (videoPosts ps)"
  using lookup_post_SomeD [of i ps q] by (simp add: videoPosts_def)

lemma updater_local:
  assumes "statusResponse e' q = statusResponse e q" and "fetchResponse e' = fetchResponse e"
    and "autoSaveResolves e' = autoSaveResolves e"
  shows "updater e' q = updater e q"
  unfolding updater_def assms by (rule refl)

lemma reconciled_local:
  assumes "statusResponse e' q = statusResponse e q" and "fetchResponse e' = fetchResponse e"
    and "autoSaveResolves e' = autoSaveResolves e"
  shows "reconciled e' q = reconciled e q"
  unfolding reconciled_def updater_local [OF assms] by (rule refl)

lemma announced_local:
  assumes "statusResponse e' q = statusResponse e q" and "fetchResponse e' = fetchResponse e"
    and "autoSaveResolves e' = autoSaveResolves e"
  shows "announced e' q = announced e q"
  unfolding announced_def assms by (rule refl)

lemma announced_concerns:
  "filter (\<lambda>n. \<not> concerns (post_id p) n) (announced env p) = []"
  using announced_cases [of env p] by (auto simp: concerns_def)

lemma announced_elsewhere:
  assumes "\<And>q. q \<noteq> p \<Longrightarrow> statusResponse e' q = statusResponse e q"
    and "fetchResponse e' = fetchResponse e" and "autoSaveResolves e' = autoSaveResolves e"
  shows "filter (\<lambda>n. \<not> concerns (post_id p) n) (concat (map (announced e') sel)) =
         filter (\<lambda>n. \<not> concerns (post_id p) n) (concat (map (announced e) sel))"
proof (induction sel)
  case Nil
  then show ?case by simp
next
  case (Cons a sel)
  show ?case
  proof (cases "a = p")
    case True
    then show ?thesis using Cons by (simp add: announced_concerns)
  next
    case False
    then have "announced e' a = announced e a"
      by (intro announced_local assms)
    then show ?thesis using Cons by simp
  qed
qed

text \<open>
  No callback of the poller ever sets the flag \<open>isGeneratingVideo\<close>: a post that is
  flagged after any run of callbacks was flagged under the same id before it.
\<close>

lemma reconcile_flags:
  "q' \<in> set (posts (reconcile e w r)) \<Longrightarrow>
   \<exists>q \<in> set (posts w). post_id q = post_id q' \<and> (isGeneratingVideo q' \<longrightarrow> isGeneratingVideo q)"
proof (cases r)
  case Rejected
  then show ?thesis if "q' \<in> set (posts (reconcile e w r))" using that by auto
next
  case (Fulfilled p v)
  show ?thesis if h: "q' \<in> set (posts (reconcile e w r))"
  proof (cases "fetchResponse e p v")
    case None
    with h Fulfilled show ?thesis
      by (auto simp: Let_def replace_by_id_def fetchFailedUpdate_def failedUpdate_def
            processingUpdate_def split: if_splits)
  next
    case (Some u)
    with h Fulfilled show ?thesis
      by (auto simp: Let_def replace_by_id_def fetchFailedUpdate_def failedUpdate_def
            processingUpdate_def completedUpdate_def split: if_splits)
  qed
qed

lemma callbacks_flags:
  "q' \<in> set (posts (callbacks steps w)) \<Longrightarrow>
   \<exists>q \<in> set (posts w). post_id q = post_id q' \<and> (isGeneratingVideo q' \<longrightarrow> isGeneratingVideo q)"
proof (induction steps arbitrary: w q')
  case Nil
  then show ?case by (auto simp: callbacks_def)
next
  case (Cons c steps)
  obtain e r where c: "c = (e, r)" by (cases c)
  have unfold: "callbacks (c # steps) w = callbacks steps (reconcile e w r)"
    by (simp add: callbacks_def c)
  from Cons.prems have "q' \<in> set (posts (callbacks steps (reconcile e w r)))"
    by (simp only: unfold)
  then obtain q1 where q1: "q1 \<in> set (posts (reconcile e w r))" "post_id q1 = post_id q'"
      "isGeneratingVideo q' \<longrightarrow> isGeneratingVideo q1"
    using Cons.IH by blast
  obtain q where q: "q \<in> set (posts w)" "post_id q = post_id q1"
      "isGeneratingVideo q1 \<longrightarrow> isGeneratingVideo q"
    using reconcile_flags [OF q1(1)] by blast
  show ?case
  proof (rule bexI [of _ q])
    show "post_id q = post_id q' \<and> (isGeneratingVideo q' \<longrightarrow> isGeneratingVideo q)"
      using q1 q by simp
    show "q \<in> set (posts w)" by (rule q(1))
  qed
qed

lemma unflagged_never_selected:
  assumes d: "distinct (map post_id (posts w))"
    and l: "lookup_post i (posts w) = Some q0"
    and n: "\<not> isGeneratingVideo q0"
  shows "\<forall>q \<in> set (videoPosts (posts (callbacks later w))). post_id q \<noteq> i"
proof
  fix q assume sel: "q \<in> set (videoPosts (posts (callbacks later w)))"
  show "post_id q \<noteq> i"
  proof
    assume same: "post_id q = i"
    from sel have q: "q \<in> set (posts (callbacks later w))" "isGeneratingVideo q"
      by (simp_all add: videoPosts_def isActiveVideoPost_def)
    obtain q1 where q1: "q1 \<in> set (posts w)" "post_id q1 = post_id q" "isGeneratingVideo q1"
      using callbacks_flags [OF q(1)] q(2) by blast
    have "lookup_post (post_id q1) (posts w) = Some q1"
      by (rule lookup_post_unique [OF d q1(1)])
    with l q1(2) same have "q1 = q0" by simp
    with q1(3) n show False by simp
  qed
qed


text \<open>
  The order in which the results of one cycle are reconciled does not matter for the
  posts: with unique ids, any two orders of the same selection give the same collection.
\<close>

lemma find_by_id_unique:
  "distinct (map post_id sel) \<Longrightarrow> x \<in> set sel \<Longrightarrow>
   find (\<lambda>p. post_id p = post_id x) (sel :: post list) = Some x"
  using lookup_post_unique [of sel x] by (simp add: lookup_post_def)

lemma find_by_id_order:
  assumes "distinct (map post_id sel)" and "distinct (map post_id sel')"
    and "set sel' = set sel"
  shows "find (\<lambda>p. post_id p = post_id q) sel' =
         find (\<lambda>p. post_id p = post_id (q :: post)) (sel :: post list)"
proof (cases "post_id q \<in> post_id ` set sel")
  case False
  then show ?thesis using assms(3) find_id_None [of q sel] find_id_None [of q sel'] by simp
next
  case True
  then obtain x where x: "x \<in> set sel" "post_id x = post_id q" by auto
  have "find (\<lambda>p. post_id p = post_id x) sel = Some x"
    by (rule find_by_id_unique [OF assms(1) x(1)])
  moreover have "find (\<lambda>p. post_id p = post_id x) sel' = Some x"
    using find_by_id_unique [OF assms(2), of x] x(1) assms(3) by simp
  ultimately show ?thesis using x(2) by simp
qed

lemma reconcile_order:
  assumes "distinct (map post_id sel)" and "distinct (map post_id sel')"
    and "set sel' = set sel"
  shows "posts (foldl (reconcile env) w (map (settle env) sel')) =
         posts (foldl (reconcile env) w (map (settle env) sel))"
  unfolding posts_foldl_reconcile [OF assms(1)] posts_foldl_reconcile [OF assms(2)]
    find_by_id_order [OF assms]
  by (rule refl)

section \<open>Facts about a publish batch\<close>


lemma posts_deletePost:
  "posts (deletePost env w i) = filter (\<lambda>post. post_id post \<noteq> i) (posts w)"
  by (simp add: deletePost_def Let_def split: option.splits)

lemma issue_Nil [simp]: "issue [] w = w"
  by (simp add: issue_def)

lemma validate_calls_deletePost:
  "filter is_validate_call (calls (deletePost env w i)) = filter is_validate_call (calls w)"
  by (simp add: deletePost_def Let_def is_validate_call_def split: option.splits)



lemma autoPublish_cases:
  obtains
    (invalid) "\<not> passes env post"
      "autoPublish env w post =
         addNotification ''error'' ''Validation Error''
           (validationMessage (validatePostForPublishing env post)) None
           (issue [ValidateCall post] w)"
  | (rejected) "passes env post" "publishService env post = None"
      "autoPublish env w post =
         addNotification ''error'' ''Publishing Error''
           ''Failed to publish post to platforms'' None
           (issue [PublishCall post] (issue [ValidateCall post] w))"
  | (unarchived) results ws where "passes env post" "publishService env post = Some results"
      "workspace env = Some ws" "\<not> libraryResolves env post"
      "autoPublish env w post =
         addNotification ''error'' ''Publishing Error''
           ''Failed to publish post to platforms'' None
           (issue [LibraryRequest post results ws]
              (issue [PublishCall post] (issue [ValidateCall post] w)))"
  | (published) results where "passes env post" "publishService env post = Some results"
      "\<not> archiveRejects env post"
      "autoPublish env w post =
         addNotification ''post_published'' ''Post Published''
           (publishedMessage results) (Some (post_id post))
           (deletePost env
              (issue (case workspace env of None \<Rightarrow> []
                      | Some ws \<Rightarrow> [LibraryRequest post results ws])
                 (issue [PublishCall post] (issue [ValidateCall post] w)))
              (post_id post))"
proof (cases "passes env post")
  case False
  then show ?thesis
    using invalid by (simp add: autoPublish_def publishPost_def passes_def Let_def)
next
  case True
  show ?thesis
  proof (cases "publishService env post")
    case None
    with True show ?thesis
      using rejected by (simp add: autoPublish_def publishPost_def passes_def Let_def)
  next
    case (Some results)
    show ?thesis
    proof (cases "workspace env")
      case None
      with True Some show ?thesis
        using published [of results]
        by (simp add: autoPublish_def publishPost_def passes_def Let_def
              archive_def archiveRejects_def)
    next
      case (Some ws)
      show ?thesis
      proof (cases "libraryResolves env post")
        case False
        with Some True \<open>publishService env post = Some results\<close> show ?thesis
          using unarchived [of results ws]
          by (simp add: autoPublish_def publishPost_def passes_def Let_def archive_def)
      next
        case lib: True
        with Some True \<open>publishService env post = Some results\<close> show ?thesis
          using published [of results]
          by (simp add: autoPublish_def publishPost_def passes_def Let_def archive_def
                archiveRejects_def)
      qed
    qed
  qed
qed

lemma posts_autoPublish:
  "posts (autoPublish env w post) =
     (if publishes env post then filter (\<lambda>q. post_id q \<noteq> post_id post) (posts w) else posts w)"
  by (cases env post w rule: autoPublish_cases)
     (simp_all add: publishes_def publishRaises_def archiveRejects_def posts_deletePost)

lemma validate_calls_autoPublish:
  "filter is_validate_call (calls (autoPublish env w post)) =
   filter is_validate_call (calls w) @ [ValidateCall post]"
  by (cases env post w rule: autoPublish_cases)
     (simp_all add: validate_calls_deletePost, simp_all add: is_validate_call_def split: option.splits)



lemma validate_calls_foldl:
  "filter is_validate_call (calls (foldl (autoPublish env) w ps)) =
   filter is_validate_call (calls w) @ map ValidateCall ps"
  by (induction ps arbitrary: w) (simp_all add: validate_calls_autoPublish)



lemma isDue_later: "isDue env now p \<Longrightarrow> now \<le> t \<Longrightarrow> isDue env t p"
  by (auto simp: isDue_def split: option.splits)

lemma same_id_same_post:
  "distinct (map post_id ps) \<Longrightarrow> p \<in> set ps \<Longrightarrow> q \<in> set ps \<Longrightarrow> post_id q = post_id p \<Longrightarrow> q = p"
  by (auto simp: distinct_map inj_on_def)

lemma post_stays_autoPublish:
  assumes "p \<in> set (posts w)" and "\<not> passes env p" and "q \<noteq> p \<longrightarrow> post_id q \<noteq> post_id p"
  shows "p \<in> set (posts (autoPublish env w q))"
proof (cases "q = p")
  case True
  have "\<not> publishes env q" using True assms(2) by (simp add: publishes_def)
  then show ?thesis using assms(1) by (simp add: posts_autoPublish)
next
  case False
  then have "post_id p \<noteq> post_id q" using assms(3) by auto
  then show ?thesis using assms(1) by (simp add: posts_autoPublish)
qed

lemma post_stays_foldl:
  "p \<in> set (posts w) \<Longrightarrow> \<not> passes env p \<Longrightarrow>
   (\<forall>q \<in> set qs. q \<noteq> p \<longrightarrow> post_id q \<noteq> post_id p) \<Longrightarrow>
   p \<in> set (posts (foldl (autoPublish env) w qs))"
proof (induction qs arbitrary: w)
  case Nil
  then show ?case by simp
next
  case (Cons a qs)
  have a: "a \<noteq> p \<longrightarrow> post_id a \<noteq> post_id p" using Cons.prems(3) by simp
  have rest: "\<forall>q \<in> set qs. q \<noteq> p \<longrightarrow> post_id q \<noteq> post_id p" using Cons.prems(3) by simp
  have "p \<in> set (posts (autoPublish env w a))"
    by (rule post_stays_autoPublish [OF Cons.prems(1,2) a])
  then have "p \<in> set (posts (foldl (autoPublish env) (autoPublish env w a) qs))"
    using Cons.prems(2) rest by (rule Cons.IH)
  then show ?case by simp
qed

lemma distinct_autoPublish:
  "distinct (map post_id (posts w)) \<Longrightarrow> distinct (map post_id (posts (autoPublish env w q)))"
  by (simp add: posts_autoPublish distinct_map_filter)

lemma distinct_foldl:
  "distinct (map post_id (posts w)) \<Longrightarrow>
   distinct (map post_id (posts (foldl (autoPublish env) w qs)))"
  by (induction qs arbitrary: w) (simp_all add: distinct_autoPublish)

lemma checkScheduledPosts_keeps:
  assumes "distinct (map post_id (posts w))" and "p \<in> set (posts w)" and "\<not> passes env p"
  shows "p \<in> set (posts (checkScheduledPosts env now w)) \<and>
         distinct (map post_id (posts (checkScheduledPosts env now w)))"
proof -
  have others: "\<forall>q \<in> set (readyToPublish env now (posts w)). q \<noteq> p \<longrightarrow> post_id q \<noteq> post_id p"
  proof (intro ballI impI)
    fix q assume q: "q \<in> set (readyToPublish env now (posts w))" "q \<noteq> p"
    then have "q \<in> set (posts w)" by (simp add: readyToPublish_def)
    then show "post_id q \<noteq> post_id p"
      using same_id_same_post [OF assms(1,2), of q] q(2) by blast
  qed
  have "p \<in> set (posts (foldl (autoPublish env) w (readyToPublish env now (posts w))))"
    by (rule post_stays_foldl [OF assms(2,3) others])
  moreover have "distinct (map post_id
      (posts (foldl (autoPublish env) w (readyToPublish env now (posts w)))))"
    by (rule distinct_foldl [OF assms(1)])
  ultimately show ?thesis by (simp add: checkScheduledPosts_def)
qed

lemma scheduleCycles_keeps:
  "\<forall>c \<in> set later. \<not> passes (fst c) p \<Longrightarrow> distinct (map post_id (posts w)) \<Longrightarrow>
   p \<in> set (posts w) \<Longrightarrow> p \<in> set (posts (scheduleCycles later w))"
proof (induction later arbitrary: w)
  case Nil
  then show ?case by (simp add: scheduleCycles_def)
next
  case (Cons c later)
  obtain e t where c: "c = (e, t)" by (cases c)
  have np: "\<not> passes e p" using Cons.prems(1) c by simp
  have rest: "\<forall>c \<in> set later. \<not> passes (fst c) p" using Cons.prems(1) by simp
  have k: "p \<in> set (posts (checkScheduledPosts e t w)) \<and>
         distinct (map post_id (posts (checkScheduledPosts e t w)))"
    by (rule checkScheduledPosts_keeps [OF Cons.prems(2,3) np])
  have unfold: "scheduleCycles (c # later) w = scheduleCycles later (checkScheduledPosts e t w)"
    by (simp add: scheduleCycles_def c)
  have "p \<in> set (posts (scheduleCycles later (checkScheduledPosts e t w)))"
    using rest k by (intro Cons.IH) simp_all
  then show ?case by (simp only: unfold)
qed

section \<open>Unfolding rules for the sample runs\<close>

lemmas sample_defs =
  blank_post_def job_def generating_post_def silent_env_def world_of_def provider_def

lemmas poll_defs =
  pollVideoStatuses_def videoPosts_def isActiveVideoPost_def operation_id_def
  operation_status_def truthy_def settle_def statusRequest_def Let_def
  replace_by_id_def completedUpdate_def fetchFailedUpdate_def failedUpdate_def
  processingUpdate_def errorMsg_def progressOf_def

lemmas publish_sample_defs =
  blank_post_def scheduled_post_def posted_def publisher_def sample_dates_def world_of_def

lemmas publish_defs =
  checkScheduledPosts_def readyToPublish_def isDue_def truthy_def autoPublish_def
  publishPost_def archive_def deletePost_def validationMessage_def publishedMessage_def
  successCount_def Let_def setPosts_def issue_def addNotification_def

section \<open>The scan of the video poller\<close>

text \<open>
  C1 (as amended). One run of the video-status scan selects exactly the posts that are
  flagged \<open>isGeneratingVideo\<close>, carry a job handle with a non-empty job id, and whose
  handle status is neither completed nor failed. The run first issues one status request
  per selected post, each carrying that post's job id, and no status request after
  these. A run whose selection is empty leaves the world as it was: no request, no
  update, no notification.
\<close>

theorem scan_selects_active_jobs:
  "videoPosts (posts w) =
     filter (\<lambda>p. isGeneratingVideo p \<and>
        (case videoOperation p of
           None \<Rightarrow> False
         | Some v \<Rightarrow> video_id v \<noteq> [] \<and> video_status v \<noteq> ''completed'' \<and>
                     video_status v \<noteq> ''failed'')) (posts w) \<and>
   (\<exists>later. calls (pollVideoStatuses env w) =
        calls w @ map statusRequest (videoPosts (posts w)) @ later \<and>
      filter is_status_request later = []) \<and>
   (\<forall>p \<in> set (videoPosts (posts w)).
      \<exists>v. videoOperation p = Some v \<and> statusRequest p = VideoStatusRequest (video_id v)) \<and>
   (videoPosts (posts w) = [] \<longrightarrow> pollVideoStatuses env w = w)"
proof (intro conjI)
  show "videoPosts (posts w) =
     filter (\<lambda>p. isGeneratingVideo p \<and>
        (case videoOperation p of
           None \<Rightarrow> False
         | Some v \<Rightarrow> video_id v \<noteq> [] \<and> video_status v \<noteq> ''completed'' \<and>
                     video_status v \<noteq> ''failed'')) (posts w)"
    unfolding videoPosts_def
    by (rule filter_cong)
       (auto simp: isActiveVideoPost_def operation_id_def operation_status_def truthy_def
             split: option.splits)
  show "\<exists>later. calls (pollVideoStatuses env w) =
        calls w @ map statusRequest (videoPosts (posts w)) @ later \<and>
      filter is_status_request later = []"
    by (rule calls_pollVideoStatuses)
  show "\<forall>p \<in> set (videoPosts (posts w)).
      \<exists>v. videoOperation p = Some v \<and> statusRequest p = VideoStatusRequest (video_id v)"
    using videoPosts_has_job by (fastforce simp: statusRequest_def)
  show "videoPosts (posts w) = [] \<longrightarrow> pollVideoStatuses env w = w"
    by (simp add: pollVideoStatuses_def)
qed

theorem scan_selects_active_jobs_witness:
  "videoPosts [blank_post] = [] \<and>
   pollVideoStatuses silent_env (world_of [blank_post]) = world_of [blank_post] \<and>
   videoPosts [blank_post, generating_post ''p1'' ''v1''] = [generating_post ''p1'' ''v1''] \<and>
   calls (pollVideoStatuses silent_env (world_of [blank_post, generating_post ''p1'' ''v1'']))
     = [VideoStatusRequest ''v1'']"
proof -
  have sel0: "videoPosts [blank_post] = []"
    by (simp add: videoPosts_def isActiveVideoPost_def blank_post_def)
  have sel1: "videoPosts [blank_post, generating_post ''p1'' ''v1''] = [generating_post ''p1'' ''v1'']"
    by (simp add: videoPosts_def isActiveVideoPost_def blank_post_def generating_post_def
          operation_id_def operation_status_def truthy_def job_def)
  have run: "calls (pollVideoStatuses silent_env (world_of [blank_post, generating_post ''p1'' ''v1'']))
     = [VideoStatusRequest ''v1'']"
    by (simp add: pollVideoStatuses_def world_of_def settle_def silent_env_def
          statusRequest_def videoPosts_def isActiveVideoPost_def blank_post_def
          generating_post_def operation_id_def operation_status_def truthy_def job_def)
  have a: "pollVideoStatuses silent_env (world_of [blank_post]) = world_of [blank_post]"
    using scan_selects_active_jobs [of "world_of [blank_post]" silent_env] sel0
    by (simp add: world_of_def)
  from sel0 a sel1 run show ?thesis by simp
qed

text \<open>
  The claim as first written asks for every post that is flagged and whose handle status
  is not terminal, and for one request per flagged post. A flagged post without a handle,
  and one whose handle has no job id, are both skipped: nothing is requested for them.
\<close>

theorem scan_skips_posts_without_job_id:
  "isGeneratingVideo (blank_post\<lparr>isGeneratingVideo := True\<rparr>) \<and>
   operation_status (blank_post\<lparr>isGeneratingVideo := True\<rparr>) \<noteq> Some ''completed'' \<and>
   operation_status (blank_post\<lparr>isGeneratingVideo := True\<rparr>) \<noteq> Some ''failed'' \<and>
   isGeneratingVideo (generating_post ''p1'' []) \<and>
   operation_status (generating_post ''p1'' []) = Some ''processing'' \<and>
   videoPosts [blank_post\<lparr>isGeneratingVideo := True\<rparr>, generating_post ''p1'' []] = [] \<and>
   calls (pollVideoStatuses silent_env
     (world_of [blank_post\<lparr>isGeneratingVideo := True\<rparr>, generating_post ''p1'' []])) = []"
  by (simp add: videoPosts_def isActiveVideoPost_def blank_post_def generating_post_def
        operation_id_def operation_status_def truthy_def job_def pollVideoStatuses_def
        world_of_def)

section \<open>Reconciliation of completed jobs\<close>

text \<open>
  C2 (as amended). Post ids are unique in the collection. For a post selected by the
  scan whose status response is completed, whose download request succeeds and whose
  auto-save to the media library resolves, the poll cycle leaves under that post's id
  the post with \<open>generatedVideoUrl\<close> set to the fetched value, \<open>isGeneratingVideo\<close> false,
  the status line \<open>Completed!\<close> and the new job handle, every other field as it was, and
  the cycle emits exactly one completion notification carrying the post's id. From then
  on no scan selects the post, whatever callbacks of this or any other tick run in
  between; only a tick that had selected the post before the update reconciles it again.
\<close>

theorem completed_video_is_stored:
  assumes "distinct (map post_id (posts w))"
    and "p \<in> set (videoPosts (posts w))"
    and "statusResponse env p = Some v"
    and "video_status v = ''completed''"
    and "fetchResponse env p v = Some videoUrl"
    and "autoSaveResolves env videoUrl (topic p)"
  shows "lookup_post (post_id p) (posts (pollVideoStatuses env w)) =
           Some (p\<lparr>generatedVideoUrl := Some videoUrl, isGeneratingVideo := False,
                   videoGenerationStatus := ''Completed!'', videoOperation := Some v\<rparr>) \<and>
         length (filter (is_completion_for (post_id p))
                   (notifications (pollVideoStatuses env w))) =
           length (filter (is_completion_for (post_id p)) (notifications w)) + 1 \<and>
         (\<forall>q \<in> set (videoPosts (posts (callbacks later (pollVideoStatuses env w)))).
            post_id q \<noteq> post_id p)"
proof -
  let ?q = "p\<lparr>generatedVideoUrl := Some videoUrl, isGeneratingVideo := False,
              videoGenerationStatus := ''Completed!'', videoOperation := Some v\<rparr>"
  let ?w = "pollVideoStatuses env w"
  have upd: "updater env p p = ?q"
    using assms(3-6) by (simp add: updater_def completedUpdate_def)
  have now: "lookup_post (post_id p) (posts ?w) = Some ?q"
    using selected_post_reconciled [OF assms(1,2), of env] upd by simp
  have d: "distinct (map post_id (posts ?w))"
    using assms(1) by (simp add: ids_pollVideoStatuses)
  have off: "\<not> isGeneratingVideo ?q" by simp
  have never: "\<forall>q \<in> set (videoPosts (posts (callbacks later ?w))). post_id q \<noteq> post_id p"
    by (rule unflagged_never_selected [OF d now off])
  have ann: "announced env p =
      [\<lparr>n_type = ''video_complete'', n_title = ''Video Generation Complete'',
        n_message = ''Video for '' @ [CHR 0x22] @ topic p @ [CHR 0x22] @ '' is ready!'',
        n_postId = Some (post_id p)\<rparr>]"
    using assms(3-6) by (simp add: announced_def)
  have "filter (is_completion_for (post_id p)) (notifications ?w) =
        filter (is_completion_for (post_id p)) (notifications w) @
        filter (is_completion_for (post_id p)) (announced env p)"
    using announced_selected [OF distinct_videoPosts [OF assms(1)] assms(2), of env]
    by (simp add: notifications_pollVideoStatuses)
  then have count: "length (filter (is_completion_for (post_id p)) (notifications ?w)) =
           length (filter (is_completion_for (post_id p)) (notifications w)) + 1"
    by (simp add: ann is_completion_for_def)
  from now count never show ?thesis by blast
qed

text \<open>
  Post \<open>p2\<close> with job \<open>v2\<close>: the status endpoint answers completed and the download
  returns a URL.
\<close>

theorem completed_video_is_stored_witness:
  "lookup_post ''p2''
     (posts (pollVideoStatuses
        (provider (job ''v2'' ''completed'') (Some ''https://cdn.example/v2.mp4'') True)
        (world_of [blank_post, generating_post ''p2'' ''v2'']))) =
     Some ((generating_post ''p2'' ''v2'')
            \<lparr>generatedVideoUrl := Some ''https://cdn.example/v2.mp4'',
              isGeneratingVideo := False, videoGenerationStatus := ''Completed!'',
              videoOperation := Some (job ''v2'' ''completed'')\<rparr>) \<and>
   length (filter (is_completion_for ''p2'')
     (notifications (pollVideoStatuses
        (provider (job ''v2'' ''completed'') (Some ''https://cdn.example/v2.mp4'') True)
        (world_of [blank_post, generating_post ''p2'' ''v2''])))) = 1"
proof -
  let ?env = "provider (job ''v2'' ''completed'') (Some ''https://cdn.example/v2.mp4'') True"
  let ?w = "world_of [blank_post, generating_post ''p2'' ''v2'']"
  let ?p = "generating_post ''p2'' ''v2''"
  have 1: "distinct (map post_id (posts ?w))" by (simp add: sample_defs)
  have 2: "?p \<in> set (videoPosts (posts ?w))" by (simp add: sample_defs poll_defs)
  have 3: "statusResponse ?env ?p = Some (job ''v2'' ''completed'')" by (simp add: provider_def)
  have 4: "video_status (job ''v2'' ''completed'') = ''completed''" by (simp add: job_def)
  have 5: "fetchResponse ?env ?p (job ''v2'' ''completed'') = Some ''https://cdn.example/v2.mp4''"
    by (simp add: provider_def)
  have 6: "autoSaveResolves ?env ''https://cdn.example/v2.mp4'' (topic ?p)"
    by (simp add: provider_def)
  have 7: "post_id ?p = ''p2''" by (simp add: sample_defs)
  have 8: "filter (is_completion_for ''p2'') (notifications ?w) = []" by (simp add: world_of_def)
  show ?thesis
    using completed_video_is_stored [OF 1 2 3 4 5 6, of "[]"] 7 8 by simp
qed

text \<open>
  The claim as first written asks only for the download to succeed, and promises one
  update and one notification for the post. The auto-save sits in the same try block
  before the update: when it rejects, the post is marked failed, no URL is stored and
  nothing is announced. And the timer has no guard against a tick that fires while a
  download is awaited: two overlapping ticks both select the post, and both store the
  video and announce it.
\<close>

theorem completion_needs_autosave_and_a_single_tick:
  "video_status (job ''v2'' ''completed'') = ''completed'' \<and>
   fetchResponse (provider (job ''v2'' ''completed'') (Some ''https://cdn.example/v2.mp4'') False)
     (generating_post ''p2'' ''v2'') (job ''v2'' ''completed'') =
     Some ''https://cdn.example/v2.mp4'' \<and>
   pollVideoStatuses
     (provider (job ''v2'' ''completed'') (Some ''https://cdn.example/v2.mp4'') False)
     (world_of [generating_post ''p2'' ''v2'']) =
   \<lparr>posts = [(generating_post ''p2'' ''v2'')
               \<lparr>isGeneratingVideo := False, videoGenerationStatus := ''Failed.''\<rparr>],
    notifications = [],
    calls = [VideoStatusRequest ''v2'', VideoFetchRequest ''v2'',
             AutoSaveMedia ''https://cdn.example/v2.mp4'' ''video'' ''Launch'']\<rparr> \<and>
   notifications (overlappingPolls
     (provider (job ''v2'' ''completed'') (Some ''https://cdn.example/v2.mp4'') True)
     (provider (job ''v2'' ''completed'') (Some ''https://cdn.example/v2.mp4'') True)
     (world_of [generating_post ''p2'' ''v2''])) =
   [\<lparr>n_type = ''video_complete'', n_title = ''Video Generation Complete'',
     n_message = ''Video for '' @ [CHR 0x22] @ ''Launch'' @ [CHR 0x22] @ '' is ready!'',
     n_postId = Some ''p2''\<rparr>,
    \<lparr>n_type = ''video_complete'', n_title = ''Video Generation Complete'',
     n_message = ''Video for '' @ [CHR 0x22] @ ''Launch'' @ [CHR 0x22] @ '' is ready!'',
     n_postId = Some ''p2''\<rparr>]"
  by (simp add: sample_defs poll_defs overlappingPolls_def setPosts_def issue_def
        addNotification_def)

text \<open>
  C3. For a post selected by the scan whose status response is completed and whose
  download then fails, the poll cycle leaves the post with \<open>isGeneratingVideo\<close> false and
  the status line \<open>Failed.\<close>, every other field as it was. From then on no scan selects
  a post with that id, whatever callbacks of this or any other tick run in between, in
  whatever order and with whatever answers.
\<close>

theorem failed_download_ends_generation:
  assumes "distinct (map post_id (posts w))"
    and "p \<in> set (videoPosts (posts w))"
    and "statusResponse env p = Some v"
    and "video_status v = ''completed''"
    and "fetchResponse env p v = None"
  shows "lookup_post (post_id p) (posts (pollVideoStatuses env w)) =
           Some (p\<lparr>isGeneratingVideo := False, videoGenerationStatus := ''Failed.''\<rparr>) \<and>
         (\<forall>q \<in> set (videoPosts (posts (callbacks later (pollVideoStatuses env w)))).
            post_id q \<noteq> post_id p)"
proof -
  let ?q = "p\<lparr>isGeneratingVideo := False, videoGenerationStatus := ''Failed.''\<rparr>"
  let ?w = "pollVideoStatuses env w"
  have upd: "updater env p p = ?q"
    using assms(3-5) by (simp add: updater_def fetchFailedUpdate_def)
  have now: "lookup_post (post_id p) (posts ?w) = Some ?q"
    using selected_post_reconciled [OF assms(1,2), of env] upd by simp
  have d: "distinct (map post_id (posts ?w))"
    using assms(1) by (simp add: ids_pollVideoStatuses)
  have off: "\<not> isGeneratingVideo ?q" by simp
  have never: "\<forall>q \<in> set (videoPosts (posts (callbacks later ?w))). post_id q \<noteq> post_id p"
    by (rule unflagged_never_selected [OF d now off])
  from now never show ?thesis by blast
qed

text \<open>
  Post \<open>p2\<close> with job \<open>v2\<close>: the download fails. A callback of an overlapping tick whose
  download succeeds runs afterwards, and the post is still not selected.
\<close>

theorem failed_download_ends_generation_witness:
  "lookup_post ''p2''
     (posts (pollVideoStatuses (provider (job ''v2'' ''completed'') None True)
        (world_of [blank_post, generating_post ''p2'' ''v2'']))) =
     Some ((generating_post ''p2'' ''v2'')
            \<lparr>isGeneratingVideo := False, videoGenerationStatus := ''Failed.''\<rparr>) \<and>
   videoPosts (posts (callbacks
      [(provider (job ''v2'' ''completed'') (Some ''https://cdn.example/v2.mp4'') True,
        Fulfilled (generating_post ''p2'' ''v2'') (job ''v2'' ''completed''))]
      (pollVideoStatuses (provider (job ''v2'' ''completed'') None True)
         (world_of [blank_post, generating_post ''p2'' ''v2''])))) = []"
proof -
  let ?env = "provider (job ''v2'' ''completed'') None True"
  let ?w = "world_of [blank_post, generating_post ''p2'' ''v2'']"
  let ?p = "generating_post ''p2'' ''v2''"
  have 1: "distinct (map post_id (posts ?w))" by (simp add: sample_defs)
  have 2: "?p \<in> set (videoPosts (posts ?w))" by (simp add: sample_defs poll_defs)
  have 3: "statusResponse ?env ?p = Some (job ''v2'' ''completed'')" by (simp add: provider_def)
  have 4: "video_status (job ''v2'' ''completed'') = ''completed''" by (simp add: job_def)
  have 5: "fetchResponse ?env ?p (job ''v2'' ''completed'') = None" by (simp add: provider_def)
  have 7: "post_id ?p = ''p2''" by (simp add: sample_defs)
  have a: "lookup_post ''p2'' (posts (pollVideoStatuses ?env ?w)) =
     Some (?p\<lparr>isGeneratingVideo := False, videoGenerationStatus := ''Failed.''\<rparr>)"
    using failed_download_ends_generation [OF 1 2 3 4 5, of "[]"] 7 by simp
  have b: "videoPosts (posts (callbacks
      [(provider (job ''v2'' ''completed'') (Some ''https://cdn.example/v2.mp4'') True,
        Fulfilled ?p (job ''v2'' ''completed''))]
      (pollVideoStatuses ?env ?w))) = []"
    by (simp add: callbacks_def sample_defs poll_defs setPosts_def issue_def
          addNotification_def)
  from a b show ?thesis by (rule conjI)
qed

section \<open>Reconciliation of failed and running jobs\<close>

text \<open>
  C4. For a post selected by the scan whose status response is failed, the cycle
  leaves the post with \<open>isGeneratingVideo\<close> false, the new job handle, and the status line
  \<open>Failed: \<close> followed by the provider's error message, or by the default text when the
  provider gives none or an empty one. Reconciling that result issues no call at all,
  from any state; over the whole cycle the download requests number as many as the
  selected posts whose status response is completed, and this post is not among them.
\<close>

theorem provider_failure_is_recorded:
  assumes "distinct (map post_id (posts w))"
    and "p \<in> set (videoPosts (posts w))"
    and "statusResponse env p = Some v"
    and "video_status v = ''failed''"
  shows "lookup_post (post_id p) (posts (pollVideoStatuses env w)) =
           Some (p\<lparr>isGeneratingVideo := False,
                   videoGenerationStatus := ''Failed: '' @
                     (case error_message v of
                        None \<Rightarrow> ''Video generation failed''
                      | Some m \<Rightarrow> if m = [] then ''Video generation failed'' else m),
                   videoOperation := Some v\<rparr>) \<and>
         calls (reconcile env w' (settle env p)) = calls w' \<and>
         length (filter is_fetch_request (calls (pollVideoStatuses env w))) =
           length (filter is_fetch_request (calls w)) +
           length (filter (answers_completed env) (videoPosts (posts w))) \<and>
         \<not> answers_completed env p"
proof -
  have upd: "updater env p p =
      p\<lparr>isGeneratingVideo := False,
        videoGenerationStatus := ''Failed: '' @
          (case error_message v of
             None \<Rightarrow> ''Video generation failed''
           | Some m \<Rightarrow> if m = [] then ''Video generation failed'' else m),
        videoOperation := Some v\<rparr>"
    using assms(3,4)
    by (cases "error_message v") (simp_all add: updater_def failedUpdate_def errorMsg_def truthy_def)
  have now: "lookup_post (post_id p) (posts (pollVideoStatuses env w)) = Some (updater env p p)"
    by (rule selected_post_reconciled [OF assms(1,2)])
  have quiet: "calls (reconcile env w' (settle env p)) = calls w'"
    using assms(3,4) by (simp add: settle_def)
  have no: "\<not> answers_completed env p"
    using assms(3,4) by (simp add: answers_completed_def)
  from now upd quiet no fetch_requests_pollVideoStatuses [of env w] show ?thesis by simp
qed

theorem provider_failure_is_recorded_witness:
  "lookup_post ''p2''
     (posts (pollVideoStatuses
        (provider ((job ''v2'' ''failed'')\<lparr>error_message := Some ''quota exceeded''\<rparr>) None True)
        (world_of [blank_post, generating_post ''p2'' ''v2'']))) =
     Some ((generating_post ''p2'' ''v2'')
            \<lparr>isGeneratingVideo := False,
              videoGenerationStatus := ''Failed: quota exceeded'',
              videoOperation := Some ((job ''v2'' ''failed'')\<lparr>error_message := Some ''quota exceeded''\<rparr>)\<rparr>) \<and>
   filter is_fetch_request (calls (pollVideoStatuses
        (provider ((job ''v2'' ''failed'')\<lparr>error_message := Some ''quota exceeded''\<rparr>) None True)
        (world_of [blank_post, generating_post ''p2'' ''v2'']))) = []"
proof -
  let ?v = "(job ''v2'' ''failed'')\<lparr>error_message := Some ''quota exceeded''\<rparr>"
  let ?env = "provider ?v None True"
  let ?w = "world_of [blank_post, generating_post ''p2'' ''v2'']"
  let ?p = "generating_post ''p2'' ''v2''"
  have 1: "distinct (map post_id (posts ?w))" by (simp add: sample_defs)
  have 2: "?p \<in> set (videoPosts (posts ?w))" by (simp add: sample_defs poll_defs)
  have 3: "statusResponse ?env ?p = Some ?v" by (simp add: provider_def)
  have 4: "video_status ?v = ''failed''" by (simp add: job_def)
  have 7: "post_id ?p = ''p2''" by (simp add: sample_defs)
  have 8: "error_message ?v = Some ''quota exceeded''" by (simp add: job_def)
  have 9: "videoPosts (posts ?w) = [?p]" by (simp add: sample_defs poll_defs)
  have 10: "calls ?w = []" by (simp add: world_of_def)
  have 11: "filter (answers_completed ?env) [?p] = []"
    by (simp add: answers_completed_def 3 4)
  have "lookup_post ''p2'' (posts (pollVideoStatuses ?env ?w)) =
     Some (?p\<lparr>isGeneratingVideo := False,
              videoGenerationStatus := ''Failed: quota exceeded'',
              videoOperation := Some ?v\<rparr>) \<and>
     length (filter is_fetch_request (calls (pollVideoStatuses ?env ?w))) = 0"
    using provider_failure_is_recorded [OF 1 2 3 4, of ?w] 7 8
    by (simp add: 9 10 11)
  then show ?thesis by simp
qed



section \<open>Rejected status requests\<close>

text \<open>
  C8. For a post selected by the scan whose status request is rejected, the cycle
  leaves the post exactly as it was, so the scan of the resulting collection selects it
  again with the same job handle. Every other post of the collection ends the cycle as
  it would have with any other outcome \<open>r\<close> of that request, and so do the notifications
  that do not carry the post's id.
\<close>

theorem rejected_status_request_is_isolated:
  assumes "distinct (map post_id (posts w))"
    and "p \<in> set (videoPosts (posts w))"
    and "statusResponse env p = None"
  shows "lookup_post (post_id p) (posts (pollVideoStatuses env w)) = Some p \<and>
         p \<in> set (videoPosts (posts (pollVideoStatuses env w))) \<and>
         (\<forall>q \<in> set (posts w). q \<noteq> p \<longrightarrow>
            lookup_post (post_id q) (posts (pollVideoStatuses env w)) =
            lookup_post (post_id q)
              (posts (pollVideoStatuses
                 (env\<lparr>statusResponse := (statusResponse env)(p := r)\<rparr>) w))) \<and>
         filter (\<lambda>n. \<not> concerns (post_id p) n) (notifications (pollVideoStatuses env w)) =
         filter (\<lambda>n. \<not> concerns (post_id p) n)
           (notifications (pollVideoStatuses
              (env\<lparr>statusResponse := (statusResponse env)(p := r)\<rparr>) w))"
proof -
  let ?env = "env\<lparr>statusResponse := (statusResponse env)(p := r)\<rparr>"
  have upd: "updater env p p = p" using assms(3) by (simp add: updater_def)
  have now: "lookup_post (post_id p) (posts (pollVideoStatuses env w)) = Some p"
    using selected_post_reconciled [OF assms(1,2), of env] upd by simp
  have active: "isActiveVideoPost p" using assms(2) by (simp add: videoPosts_def)
  have again: "p \<in> set (videoPosts (posts (pollVideoStatuses env w)))"
    by (rule lookup_post_member [OF now active])
  have same: "\<And>q. q \<noteq> p \<Longrightarrow> statusResponse ?env q = statusResponse env q" by simp
  have f: "fetchResponse ?env = fetchResponse env" by simp
  have s: "autoSaveResolves ?env = autoSaveResolves env" by simp
  have others: "\<forall>q \<in> set (posts w). q \<noteq> p \<longrightarrow>
            lookup_post (post_id q) (posts (pollVideoStatuses env w)) =
            lookup_post (post_id q) (posts (pollVideoStatuses ?env w))"
  proof (intro ballI impI)
    fix q assume q: "q \<in> set (posts w)" "q \<noteq> p"
    have a: "lookup_post (post_id q) (map (reconciled env) (posts w)) = Some (reconciled env q)"
      using assms(1) q(1) by (rule lookup_post_map) simp
    have b: "lookup_post (post_id q) (map (reconciled ?env) (posts w)) =
             Some (reconciled ?env q)"
      using assms(1) q(1) by (rule lookup_post_map) simp
    have c: "reconciled ?env q = reconciled env q"
      by (rule reconciled_local [OF same [OF q(2)] f s])
    have d1: "posts (pollVideoStatuses env w) = map (reconciled env) (posts w)"
      by (rule posts_pollVideoStatuses [OF assms(1)])
    have d2: "posts (pollVideoStatuses ?env w) = map (reconciled ?env) (posts w)"
      by (rule posts_pollVideoStatuses [OF assms(1)])
    show "lookup_post (post_id q) (posts (pollVideoStatuses env w)) =
          lookup_post (post_id q) (posts (pollVideoStatuses ?env w))"
      unfolding d1 d2 a b c by (rule refl)
  qed
  have quiet: "filter (\<lambda>n. \<not> concerns (post_id p) n) (notifications (pollVideoStatuses env w)) =
         filter (\<lambda>n. \<not> concerns (post_id p) n) (notifications (pollVideoStatuses ?env w))"
    unfolding notifications_pollVideoStatuses filter_append
    using announced_elsewhere [OF same f s, of p "videoPosts (posts w)"] by simp
  from now again others quiet show ?thesis by simp
qed

text \<open>
  Two generating posts: the request for \<open>p1\<close> is rejected, the one for \<open>p2\<close> reports
  progress. Post \<open>p2\<close> ends as it does when the request for \<open>p1\<close> reports a failed job.
\<close>

theorem rejected_status_request_is_isolated_witness:
  "lookup_post ''p1''
     (posts (pollVideoStatuses
        (answering_for ''p2'' ((job ''v2'' ''processing'')\<lparr>progress := Some (Nonzero ''40'')\<rparr>))
        (world_of [generating_post ''p1'' ''v1'', generating_post ''p2'' ''v2'']))) =
     Some (generating_post ''p1'' ''v1'') \<and>
   lookup_post ''p2''
     (posts (pollVideoStatuses
        (answering_for ''p2'' ((job ''v2'' ''processing'')\<lparr>progress := Some (Nonzero ''40'')\<rparr>))
        (world_of [generating_post ''p1'' ''v1'', generating_post ''p2'' ''v2'']))) =
   lookup_post ''p2''
     (posts (pollVideoStatuses
        ((answering_for ''p2'' ((job ''v2'' ''processing'')\<lparr>progress := Some (Nonzero ''40'')\<rparr>))
           \<lparr>statusResponse :=
              (statusResponse
                 (answering_for ''p2'' ((job ''v2'' ''processing'')\<lparr>progress := Some (Nonzero ''40'')\<rparr>)))
              (generating_post ''p1'' ''v1'' := Some (job ''v1'' ''failed''))\<rparr>)
        (world_of [generating_post ''p1'' ''v1'', generating_post ''p2'' ''v2''])))"
proof -
  let ?env = "answering_for ''p2'' ((job ''v2'' ''processing'')\<lparr>progress := Some (Nonzero ''40'')\<rparr>)"
  let ?w = "world_of [generating_post ''p1'' ''v1'', generating_post ''p2'' ''v2'']"
  let ?p = "generating_post ''p1'' ''v1''"
  let ?q = "generating_post ''p2'' ''v2''"
  have 1: "distinct (map post_id (posts ?w))" by (simp add: sample_defs)
  have 2: "?p \<in> set (videoPosts (posts ?w))" by (simp add: sample_defs poll_defs)
  have 3: "statusResponse ?env ?p = None" by (simp add: answering_for_def sample_defs)
  have 4: "?q \<in> set (posts ?w)" by (simp add: world_of_def)
  have 5: "?q \<noteq> ?p" by (simp add: sample_defs)
  have 6: "post_id ?p = ''p1''" "post_id ?q = ''p2''" by (simp_all add: sample_defs)
  note t = rejected_status_request_is_isolated [OF 1 2 3, of "Some (job ''v1'' ''failed'')"]
  from t have a: "lookup_post (post_id ?p) (posts (pollVideoStatuses ?env ?w)) = Some ?p"
    by (rule conjunct1)
  from t have "\<forall>q \<in> set (posts ?w). q \<noteq> ?p \<longrightarrow>
            lookup_post (post_id q) (posts (pollVideoStatuses ?env ?w)) =
            lookup_post (post_id q)
              (posts (pollVideoStatuses
                 (?env\<lparr>statusResponse :=
                     (statusResponse ?env)(?p := Some (job ''v1'' ''failed''))\<rparr>) ?w))"
    by blast
  from this 4 5 have b: "lookup_post (post_id ?q) (posts (pollVideoStatuses ?env ?w)) =
            lookup_post (post_id ?q)
              (posts (pollVideoStatuses
                 (?env\<lparr>statusResponse :=
                     (statusResponse ?env)(?p := Some (job ''v1'' ''failed''))\<rparr>) ?w))"
    by blast
  from a b show ?thesis unfolding 6 by (rule conjI)
qed

section \<open>The scheduled-post scan\<close>

text \<open>
  C6. At the time \<open>T\<close> of the scan a post of the collection is selected for publishing
  if and only if its status is \<open>scheduled\<close> and its \<open>scheduledAt\<close> is a non-empty text that
  denotes a time at or before \<open>T\<close>; a post whose \<open>scheduledAt\<close> denotes a time after \<open>T\<close> is
  never selected. The posts handed to the publish operation in that run are the selected
  ones, in the order of the collection.
\<close>

theorem due_posts_are_selected:
  "(p \<in> set (readyToPublish env T ps) \<longleftrightarrow>
      p \<in> set ps \<and> status p = ''scheduled'' \<and>
      (\<exists>s t. scheduledAt p = Some s \<and> s \<noteq> [] \<and> dateValue env s = Some t \<and> t \<le> T)) \<and>
   (scheduledAt p = Some s \<and> dateValue env s = Some t \<and> T < t \<longrightarrow>
      p \<notin> set (readyToPublish env T ps)) \<and>
   filter is_validate_call (calls (checkScheduledPosts env T w)) =
     filter is_validate_call (calls w) @ map ValidateCall (readyToPublish env T (posts w))"
proof (intro conjI)
  show "p \<in> set (readyToPublish env T ps) \<longleftrightarrow>
      p \<in> set ps \<and> status p = ''scheduled'' \<and>
      (\<exists>s t. scheduledAt p = Some s \<and> s \<noteq> [] \<and> dateValue env s = Some t \<and> t \<le> T)"
    by (auto simp: readyToPublish_def isDue_def truthy_def split: option.splits)
  show "scheduledAt p = Some s \<and> dateValue env s = Some t \<and> T < t \<longrightarrow>
      p \<notin> set (readyToPublish env T ps)"
    by (auto simp: readyToPublish_def isDue_def)
  show "filter is_validate_call (calls (checkScheduledPosts env T w)) =
     filter is_validate_call (calls w) @ map ValidateCall (readyToPublish env T (posts w))"
    by (simp add: checkScheduledPosts_def validate_calls_foldl)
qed

text \<open>
  At 10:00 post \<open>p3\<close>, scheduled for five minutes earlier, is selected and post \<open>p4\<close>,
  scheduled for five minutes later, is not.
\<close>

theorem due_posts_are_selected_witness:
  "readyToPublish (publisher (\<lambda>_. True) (\<lambda>_. None)) 1735725600000
     [scheduled_post ''p3'' ''2025-01-01T09:55:00Z'',
      scheduled_post ''p4'' ''2025-01-01T10:05:00Z''] =
   [scheduled_post ''p3'' ''2025-01-01T09:55:00Z''] \<and>
   scheduled_post ''p4'' ''2025-01-01T10:05:00Z'' \<notin>
     set (readyToPublish (publisher (\<lambda>_. True) (\<lambda>_. None)) 1735725600000
       [scheduled_post ''p3'' ''2025-01-01T09:55:00Z'',
        scheduled_post ''p4'' ''2025-01-01T10:05:00Z''])"
proof -
  let ?env = "publisher (\<lambda>_. True) (\<lambda>_. None)"
  let ?p3 = "scheduled_post ''p3'' ''2025-01-01T09:55:00Z''"
  let ?p4 = "scheduled_post ''p4'' ''2025-01-01T10:05:00Z''"
  have a: "scheduledAt ?p4 = Some ''2025-01-01T10:05:00Z'' \<and>
           dateValue ?env ''2025-01-01T10:05:00Z'' = Some 1735725900000 \<and>
           (1735725600000::int) < 1735725900000"
    by (simp add: publish_sample_defs)
  have b: "?p4 \<notin> set (readyToPublish ?env 1735725600000 [?p3, ?p4])"
    using due_posts_are_selected
      [of ?p4 ?env 1735725600000 "[?p3, ?p4]" "''2025-01-01T10:05:00Z''" 1735725900000] a
    by blast
  have c: "readyToPublish ?env 1735725600000 [?p3, ?p4] = [?p3]"
    by (simp add: publish_sample_defs readyToPublish_def isDue_def truthy_def)
  from b c show ?thesis by simp
qed



section \<open>Publishing one post\<close>

text \<open>
  C9 (as amended). For a post that passes validation, two runs of the publish operation
  whose result lists differ only in their success flags leave the same post collection,
  issue the same calls except for the success flags inside the result list that the
  archive request carries, and emit the same notifications except for the text of the
  success notification.
\<close>

theorem results_reach_archive_and_text_only:
  assumes "valid (validatePostForPublishing env post)"
    and "map mask_success r1 = map mask_success r2"
  shows "posts (world_after (publishPost (with_results env post r1) w post)) =
         posts (world_after (publishPost (with_results env post r2) w post)) \<and>
         map mask_call (calls (world_after (publishPost (with_results env post r1) w post))) =
         map mask_call (calls (world_after (publishPost (with_results env post r2) w post))) \<and>
         map mask_note
           (notifications (world_after (publishPost (with_results env post r1) w post))) =
         map mask_note
           (notifications (world_after (publishPost (with_results env post r2) w post)))"
  using assms
  by (cases "workspace env"; cases "libraryResolves env post";
      cases "deleteOk env (post_id post)")
     (simp_all add: publishPost_def archive_def deletePost_def Let_def world_after_def
        with_results_def mask_call_def mask_note_def)

text \<open>One platform result, once successful and once not: the post is removed either way.\<close>

theorem results_reach_archive_and_text_only_witness:
  "posts (world_after (publishPost
      (with_results (publisher (\<lambda>_. True) (\<lambda>_. None))
         (scheduled_post ''a'' ''2025-01-01T09:55:00Z'') [posted True])
      (world_of [scheduled_post ''a'' ''2025-01-01T09:55:00Z''])
      (scheduled_post ''a'' ''2025-01-01T09:55:00Z''))) =
   posts (world_after (publishPost
      (with_results (publisher (\<lambda>_. True) (\<lambda>_. None))
         (scheduled_post ''a'' ''2025-01-01T09:55:00Z'') [posted False])
      (world_of [scheduled_post ''a'' ''2025-01-01T09:55:00Z''])
      (scheduled_post ''a'' ''2025-01-01T09:55:00Z''))) \<and>
   posts (world_after (publishPost
      (with_results (publisher (\<lambda>_. True) (\<lambda>_. None))
         (scheduled_post ''a'' ''2025-01-01T09:55:00Z'') [posted True])
      (world_of [scheduled_post ''a'' ''2025-01-01T09:55:00Z''])
      (scheduled_post ''a'' ''2025-01-01T09:55:00Z''))) = []"
proof -
  let ?env = "publisher (\<lambda>_. True) (\<lambda>_. None)"
  let ?a = "scheduled_post ''a'' ''2025-01-01T09:55:00Z''"
  have 1: "valid (validatePostForPublishing ?env ?a)" by (simp add: publisher_def)
  have 2: "map mask_success [posted True] = map mask_success [posted False]"
    by (simp add: mask_success_def posted_def)
  have 3: "posts (world_after (publishPost (with_results ?env ?a [posted True])
             (world_of [?a]) ?a)) = []"
    by (simp add: publish_sample_defs publish_defs with_results_def world_after_def)
  from results_reach_archive_and_text_only [OF 1 2, of "world_of [?a]"] 3
  show ?thesis by simp
qed

text \<open>
  The claim as first written asks for the same archive request in both runs. The body of
  the archive request contains the result list, so the two requests differ.
\<close>

theorem archive_request_carries_results:
  "map mask_success [posted True] = map mask_success [posted False] \<and>
   calls (world_after (publishPost (publisher (\<lambda>_. True) (\<lambda>_. Some [posted True]))
      (world_of [scheduled_post ''a'' ''2025-01-01T09:55:00Z''])
      (scheduled_post ''a'' ''2025-01-01T09:55:00Z''))) =
     [ValidateCall (scheduled_post ''a'' ''2025-01-01T09:55:00Z''),
      PublishCall (scheduled_post ''a'' ''2025-01-01T09:55:00Z''),
      LibraryRequest (scheduled_post ''a'' ''2025-01-01T09:55:00Z'') [posted True] ''ws1'',
      DeleteRequest ''a'' ''ws1''] \<and>
   calls (world_after (publishPost (publisher (\<lambda>_. True) (\<lambda>_. Some [posted False]))
      (world_of [scheduled_post ''a'' ''2025-01-01T09:55:00Z''])
      (scheduled_post ''a'' ''2025-01-01T09:55:00Z''))) =
     [ValidateCall (scheduled_post ''a'' ''2025-01-01T09:55:00Z''),
      PublishCall (scheduled_post ''a'' ''2025-01-01T09:55:00Z''),
      LibraryRequest (scheduled_post ''a'' ''2025-01-01T09:55:00Z'') [posted False] ''ws1'',
      DeleteRequest ''a'' ''ws1''] \<and>
   LibraryRequest (scheduled_post ''a'' ''2025-01-01T09:55:00Z'') [posted True] ''ws1'' \<noteq>
   LibraryRequest (scheduled_post ''a'' ''2025-01-01T09:55:00Z'') [posted False] ''ws1''"
  by (simp add: publish_sample_defs publish_defs world_after_def mask_success_def)

text \<open>
  C10. For a due post that fails validation, the publish operation validates, emits one
  \<open>Validation Error\<close> notification and returns: the collection is unchanged and no
  publish call, archive request or delete request is issued. With unique post ids the
  post is still in the collection after the batch and after any number of later batches
  in which it fails validation, unchanged, so every scan at the same or a later time
  selects it again.
\<close>

theorem invalid_post_is_offered_again:
  assumes "distinct (map post_id (posts w))"
    and "p \<in> set (readyToPublish env now (posts w))"
    and "\<not> valid (validatePostForPublishing env p)"
    and "\<forall>c \<in> set later. \<not> valid (validatePostForPublishing (fst c) p)"
  shows "publishPost env w' p =
           Returned (addNotification ''error'' ''Validation Error''
                       (validationMessage (validatePostForPublishing env p)) None
                       (issue [ValidateCall p] w')) \<and>
         p \<in> set (posts (scheduleCycles later (checkScheduledPosts env now w))) \<and>
         (now \<le> t \<longrightarrow>
            p \<in> set (readyToPublish env t
                       (posts (scheduleCycles later (checkScheduledPosts env now w)))))"
proof -
  have step: "publishPost env w' p =
           Returned (addNotification ''error'' ''Validation Error''
                       (validationMessage (validatePostForPublishing env p)) None
                       (issue [ValidateCall p] w'))"
    using assms(3) by (simp add: publishPost_def Let_def)
  have p: "p \<in> set (posts w)" "isDue env now p"
    using assms(2) by (simp_all add: readyToPublish_def)
  have np: "\<not> passes env p" using assms(3) by (simp add: passes_def)
  have k: "p \<in> set (posts (checkScheduledPosts env now w)) \<and>
         distinct (map post_id (posts (checkScheduledPosts env now w)))"
    by (rule checkScheduledPosts_keeps [OF assms(1) p(1) np])
  have l: "\<forall>c \<in> set later. \<not> passes (fst c) p" using assms(4) by (simp add: passes_def)
  have stays: "p \<in> set (posts (scheduleCycles later (checkScheduledPosts env now w)))"
    using scheduleCycles_keeps [OF l] k by blast
  have "now \<le> t \<longrightarrow>
            p \<in> set (readyToPublish env t
                       (posts (scheduleCycles later (checkScheduledPosts env now w))))"
    using stays isDue_later [OF p(2)] by (simp add: readyToPublish_def)
  with step stays show ?thesis by simp
qed

text \<open>A due post that the validation rejects, scanned at 10:00, 10:01 and 10:02.\<close>

theorem invalid_post_is_offered_again_witness:
  "publishPost (publisher (\<lambda>_. False) (\<lambda>_. Some [posted True]))
     (world_of [scheduled_post ''a'' ''2025-01-01T09:55:00Z''])
     (scheduled_post ''a'' ''2025-01-01T09:55:00Z'') =
   Returned
     \<lparr>posts = [scheduled_post ''a'' ''2025-01-01T09:55:00Z''],
      notifications =
        [\<lparr>n_type = ''error'', n_title = ''Validation Error'', n_message = ''No content'',
          n_postId = None\<rparr>],
      calls = [ValidateCall (scheduled_post ''a'' ''2025-01-01T09:55:00Z'')]\<rparr> \<and>
   scheduled_post ''a'' ''2025-01-01T09:55:00Z'' \<in>
     set (readyToPublish (publisher (\<lambda>_. False) (\<lambda>_. Some [posted True])) 1735725720000
       (posts (scheduleCycles
          [(publisher (\<lambda>_. False) (\<lambda>_. Some [posted True]), 1735725660000)]
          (checkScheduledPosts (publisher (\<lambda>_. False) (\<lambda>_. Some [posted True]))
             1735725600000 (world_of [scheduled_post ''a'' ''2025-01-01T09:55:00Z''])))))"
proof -
  let ?env = "publisher (\<lambda>_. False) (\<lambda>_. Some [posted True])"
  let ?a = "scheduled_post ''a'' ''2025-01-01T09:55:00Z''"
  let ?w = "world_of [?a]"
  have 1: "distinct (map post_id (posts ?w))" by (simp add: world_of_def)
  have 2: "?a \<in> set (readyToPublish ?env 1735725600000 (posts ?w))"
    by (simp add: publish_sample_defs readyToPublish_def isDue_def truthy_def)
  have 3: "\<not> valid (validatePostForPublishing ?env ?a)" by (simp add: publisher_def)
  have 4: "\<forall>c \<in> set [(?env, 1735725660000::int)]. \<not> valid (validatePostForPublishing (fst c) ?a)"
    by (simp add: publisher_def)
  have 5: "validationMessage (validatePostForPublishing ?env ?a) = ''No content''"
    by (simp add: validationMessage_def publisher_def truthy_def)
  have 6: "addNotification ''error'' ''Validation Error'' ''No content'' None
             (issue [ValidateCall ?a] ?w) =
           \<lparr>posts = [?a],
             notifications =
               [\<lparr>n_type = ''error'', n_title = ''Validation Error'', n_message = ''No content'',
                 n_postId = None\<rparr>],
             calls = [ValidateCall ?a]\<rparr>"
    by (simp add: addNotification_def issue_def world_of_def)
  show ?thesis
    using invalid_post_is_offered_again [OF 1 2 3 4, of ?w 1735725720000]
    by (simp add: 5 6)
qed

end
